theory Spec2Isabelle
  imports Complex_Main
begin

section \<open>JavaScript strings\<close>

text \<open>
  A JavaScript string is modelled as a \<^typ>\<open>string\<close>, one \<^typ>\<open>char\<close> per code unit, so the
  model covers the strings whose code units lie in the Latin-1 range. \<open>length\<close> is the
  \<^verbatim>\<open>.length\<close> of the source.
\<close>

text \<open>The class \<^verbatim>\<open>\s\<close> of a regular expression, which is also what \<^verbatim>\<open>trim()\<close> strips.\<close>

definition is_space :: "char \<Rightarrow> bool" where
  "is_space c \<longleftrightarrow>
     c = CHR 0x09 \<or> c = CHR 0x0A \<or> c = CHR 0x0B \<or> c = CHR 0x0C \<or> c = CHR 0x0D \<or>
     c = CHR 0x20 \<or> c = CHR 0xA0"

definition trim :: "string \<Rightarrow> string" where
  "trim s = rev (dropWhile is_space (rev (dropWhile is_space s)))"

text \<open>\<^verbatim>\<open>s.split(d)\<close> for a one-character separator: \<^verbatim>\<open>"".split("|")\<close> is \<^verbatim>\<open>[""]\<close>.\<close>

fun split_on :: "char \<Rightarrow> string \<Rightarrow> string list" where
  "split_on d [] = [[]]"
| "split_on d (c # cs) =
     (if c = d then [] # split_on d cs
      else (case split_on d cs of [] \<Rightarrow> [[c]] | f # fs \<Rightarrow> (c # f) # fs))"

text \<open>
  \<^verbatim>\<open>s.split(/\s+/)\<close>: the pieces between maximal runs of white space; a leading or a
  trailing run leaves an empty piece, and \<^verbatim>\<open>"".split(/\s+/)\<close> is \<^verbatim>\<open>[""]\<close>.
\<close>

function split_ws :: "string \<Rightarrow> string list" where
  "split_ws s =
     (let w = takeWhile (\<lambda>c. \<not> is_space c) s;
          r = dropWhile (\<lambda>c. \<not> is_space c) s
      in if r = [] then [w] else w # split_ws (dropWhile is_space r))"
  by pat_completeness auto
termination
proof (relation "measure length")
  show "wf (measure length)" by simp
next
  fix s :: string and w r
  assume r: "r = dropWhile (\<lambda>c. \<not> is_space c) s" and ne: "r \<noteq> []"
  from ne obtain c cs where rc: "r = c # cs" by (cases r) auto
  from r ne have "dropWhile (\<lambda>c. \<not> is_space c) s \<noteq> []" by simp
  from hd_dropWhile [OF this] have "is_space (hd r)" using r by simp
  then have "is_space c" using rc by simp
  then have "length (dropWhile is_space r) \<le> length cs"
    using rc by (simp add: length_dropWhile_le)
  moreover have "length r \<le> length s" using r by (simp add: length_dropWhile_le)
  ultimately show "(dropWhile is_space r, s) \<in> measure length" using rc by simp
qed

declare split_ws.simps [simp del]

text \<open>\<^verbatim>\<open>xs.join(sep)\<close>.\<close>

fun join :: "string \<Rightarrow> string list \<Rightarrow> string" where
  "join sep [] = []"
| "join sep [x] = x"
| "join sep (x # y # ys) = x @ sep @ join sep (y # ys)"

text \<open>
  \<^verbatim>\<open>toLowerCase()\<close> on Latin-1 code units: the letters A to Z and the capital letters
  from U+00C0 to U+00DE (without the multiplication sign U+00D7) move up by 32.
\<close>

definition lower_char :: "char \<Rightarrow> char" where
  "lower_char c =
     (let n = (of_char c :: nat)
      in if (65 \<le> n \<and> n \<le> 90) \<or> (192 \<le> n \<and> n \<le> 222 \<and> n \<noteq> 215)
         then char_of (n + 32) else c)"

definition toLowerCase :: "string \<Rightarrow> string" where
  "toLowerCase s = map lower_char s"

text \<open>A non-negative integer in a template literal: its decimal digits.\<close>

definition digit_char :: "nat \<Rightarrow> char" where
  "digit_char d = char_of (48 + d)"

function show_nat :: "nat \<Rightarrow> string" where
  "show_nat n = (if n < 10 then [digit_char n] else show_nat (n div 10) @ [digit_char (n mod 10)])"
  by pat_completeness auto
termination
  by (relation "measure id") auto

declare show_nat.simps [simp del]

section \<open>Data\<close>

datatype role = System | User | Assistant

fun role_name :: "role \<Rightarrow> string" where
  "role_name System = ''system''"
| "role_name User = ''user''"
| "role_name Assistant = ''assistant''"

record message =
  role :: role
  content :: string

text \<open>A thrown error: its \<^verbatim>\<open>status\<close>, when it has one, and its \<^verbatim>\<open>message\<close>.\<close>

datatype error = Error (err_status: "nat option") (err_message: string)

text \<open>The argument of \<^verbatim>\<open>openai.chat.completions.create\<close>.\<close>

record request =
  model :: string
  messages :: "message list"
  max_tokens :: nat
  temperature :: real

type_synonym embedding = "real list"

datatype mval = Str string | Num nat

text \<open>A metadata object: its keys in insertion order; \<^verbatim>\<open>{}\<close> is the empty list.\<close>

type_synonym metadata = "(string \<times> mval) list"

record chunk =
  narrative :: string
  metadata :: "metadata option"

text \<open>One record of the backend collection.\<close>

record stored =
  sid :: string
  sembedding :: embedding
  sdocument :: string
  smetadata :: "metadata option"

text \<open>What \<^verbatim>\<open>searchMemories\<close> returns for one match.\<close>

record hit =
  hnarrative :: string
  hmetadata :: metadata
  hdistance :: real

text \<open>What \<^verbatim>\<open>getAllMemories\<close> returns for one record.\<close>

record memory =
  mid :: string
  mnarrative :: string
  mmetadata :: metadata

text \<open>The requests the vector store module sends to the backend.\<close>

datatype backend_call =
    GetOrCreateCollection
  | Count
  | Get "nat option"
  | Delete "string list"
  | Add "string list" "embedding list" "string list" "metadata list"
  | Query embedding nat

section \<open>The external services and the program state\<close>

text \<open>
  The services are outside the program. An \<open>env\<close> fixes what each of them answers:
  \<open>complete k r\<close> is the content of the first choice that the Generation Service returns
  to the request \<open>r\<close> when \<open>k\<close> requests have been sent before it, or the error it throws;
  \<open>embed\<close> likewise for the Embedding Service; \<open>backend k c\<close> is the error with which the
  backend rejects the request \<open>c\<close>, if it does; \<open>query_result\<close> is the backend's ranking
  (document, metadata, distance) for a query; \<open>now k\<close> is the clock at its \<open>k\<close>-th reading,
  in milliseconds, and \<open>toISOString\<close> formats such a reading.
\<close>

record env =
  complete :: "nat \<Rightarrow> request \<Rightarrow> error + string"
  embed :: "nat \<Rightarrow> string \<Rightarrow> error + embedding"
  backend :: "nat \<Rightarrow> backend_call \<Rightarrow> error option"
  query_result :: "embedding \<Rightarrow> nat \<Rightarrow> stored list \<Rightarrow> (string \<times> metadata option \<times> real) list"
  now :: "nat \<Rightarrow> nat"
  toISOString :: "nat \<Rightarrow> string"

text \<open>
  The module variables of the three modules, the contents of the backend collection,
  and the requests sent so far to each service.
\<close>

record world =
  conversationCache :: "message list"
  currentSummary :: string
  client :: bool
  collection :: bool
  memories :: "stored list"
  gen_log :: "request list"
  embed_log :: "string list"
  backend_log :: "backend_call list"
  clock_reads :: nat

definition CACHE_LIMIT :: nat where
  "CACHE_LIMIT = 7"

text \<open>The state in which the program starts.\<close>

definition initial_world :: world where
  "initial_world =
     \<lparr>conversationCache = [], currentSummary = [], client = False, collection = False,
      memories = [], gen_log = [], embed_log = [], backend_log = [], clock_reads = 0\<rparr>"

text \<open>\<^verbatim>\<open>openai.chat.completions.create(r)\<close>, reduced to \<^verbatim>\<open>choices[0].message.content\<close>.\<close>

definition chat_create :: "env \<Rightarrow> request \<Rightarrow> world \<Rightarrow> (error + string) \<times> world" where
  "chat_create e r w = (complete e (length (gen_log w)) r, w\<lparr>gen_log := gen_log w @ [r]\<rparr>)"

text \<open>\<^verbatim>\<open>generateEmbedding\<close>: the error of the Embedding Service is thrown again.\<close>

definition generateEmbedding :: "env \<Rightarrow> string \<Rightarrow> world \<Rightarrow> (error + embedding) \<times> world" where
  "generateEmbedding e text w =
     (embed e (length (embed_log w)) text, w\<lparr>embed_log := embed_log w @ [text]\<rparr>)"

section \<open>The fact extraction pipeline (memoryProcessor.js)\<close>

definition extraction_system :: string where
  "extraction_system = ''You are a long-term memory system. Extract and consolidate important facts from conversations. Each memory chunk should be self-contained (readable independently), focus on facts not conversation flow, and capture what someone would remember long-term. Combine related information. Output only memory chunks separated by |.''"

definition extraction_prompt_head :: string where
  \<open>extraction_prompt_head =
     ''Extract important facts and information from these conversation summaries. Think like long-term human memory - what would someone remember weeks later?\<newline>'' @
     ''\<newline>'' @
     ''CRITICAL RULES:\<newline>'' @
     ''1. Each chunk must be SELF-CONTAINED and make sense on its own\<newline>'' @
     ''2. Focus on FACTS and ATTRIBUTES, not conversation flow\<newline>'' @
     ''3. Extract WHO, WHAT, WHERE, WHEN - not "discussed" or "shifted to"\<newline>'' @
     ''4. Combine related information into one chunk\<newline>'' @
     ''5. Keep chunks 2-4 sentences, focused on one topic\<newline>'' @
     ''6. Separate unrelated topics with | character\<newline>'' @
     ''\<newline>'' @
     ''What to extract:\<newline>'' @
     ''- Personal information (name, job, location, preferences, goals)\<newline>'' @
     ''- Specific facts and details (numbers, dates, names)\<newline>'' @
     ''- Skills, knowledge, or capabilities demonstrated\<newline>'' @
     ''- Preferences, likes/dislikes, constraints\<newline>'' @
     ''- Plans, goals, or future intentions\<newline>'' @
     ''\<newline>'' @
     ''BAD (conversation flow): "User asked about Roman history. Conversation shifted to programming."\<newline>'' @
     ''GOOD (facts only): "User is interested in Python and web development."\<newline>'' @
     ''\<newline>'' @
     ''BAD (fragmented): "User moved to Tokyo. | User speaks Portuguese. | User misses Brazilian food."\<newline>'' @
     ''GOOD (self-contained): "User is Brazilian (speaks Portuguese), recently moved to Tokyo for work, and is looking for Brazilian food there while learning Japanese."\<newline>'' @
     ''\<newline>'' @
     ''BAD (too detailed): "Assistant asked about first emperor of Rome, user correctly answered Augustus, demonstrating knowledge of Roman history."\<newline>'' @
     ''GOOD (high-level): "User has knowledge of Roman history."\<newline>'' @
     ''\<newline>'' @
     ''BAD (incomplete context): "They miss Brazilian food and want to find it in Tokyo."\<newline>'' @
     ''GOOD (complete context): "User recently moved to Tokyo and misses Brazilian food from home."\<newline>'' @
     ''\<newline>'' @
     ''Summaries:\<newline>''\<close>

definition extraction_prompt_tail :: string where
  \<open>extraction_prompt_tail =
     ''\<newline>'' @
     ''\<newline>'' @
     ''Extract the key facts as self-contained chunks, separated by |.''\<close>

definition combinedSummaries :: "string list \<Rightarrow> string" where
  "combinedSummaries summaries =
     join ''\<newline>\<newline>''
       (map (\<lambda>(idx, s). ''Summary '' @ show_nat (idx + 1) @ '':\<newline>'' @ s) (enumerate 0 summaries))"

definition extraction_request :: "string list \<Rightarrow> request" where
  "extraction_request summaries =
     \<lparr>model = ''gpt-4o'',
      messages =
        [\<lparr>role = System, content = extraction_system\<rparr>,
         \<lparr>role = User,
          content = extraction_prompt_head @ combinedSummaries summaries @ extraction_prompt_tail\<rparr>],
      max_tokens = 2500, temperature = 0.7\<rparr>"

text \<open>The parse of the generated text: split, trim, drop the empty, keep 10 to 200 words.\<close>

definition chunkTexts :: "string \<Rightarrow> string list" where
  "chunkTexts narrativeText =
     filter (\<lambda>chunk. let wordCount = length (split_ws chunk) in wordCount \<ge> 10 \<and> wordCount \<le> 200)
       (filter (\<lambda>chunk. length chunk > 0)
         (map trim (split_on (CHR ''|'') narrativeText)))"

definition topics :: "string \<Rightarrow> string list" where
  "topics txt =
     take 3 (filter (\<lambda>word. length word > 5) (split_ws (toLowerCase txt)))"

text \<open>The chunk object made for one narrative; \<open>ts\<close> is \<^verbatim>\<open>new Date().toISOString()\<close>.\<close>

definition chunk_of :: "string \<Rightarrow> string \<Rightarrow> chunk" where
  "chunk_of ts txt =
     \<lparr>narrative = txt,
      metadata = Some
        ([(''timestamp'', Str ts), (''source'', Str ''conversation_summary''),
          (''chunk_length'', Num (length txt))] @
         (if length (topics txt) > 0
          then [(''topics'', Str (join '', '' (topics txt)))] else []))\<rparr>"

text \<open>
  \<^verbatim>\<open>processConversations\<close>. A missing \<^verbatim>\<open>summaries\<close> is \<open>None\<close>. Every chunk reads the clock
  once; every error is thrown again.
\<close>

definition processConversations ::
  "env \<Rightarrow> string list option \<Rightarrow> world \<Rightarrow> (error + chunk list) \<times> world" where
  "processConversations e summaries w =
     (case summaries of
        None \<Rightarrow> (Inr [], w)
      | Some ss \<Rightarrow>
          if length ss = 0 then (Inr [], w)
          else
            (case chat_create e (extraction_request ss) w of
               (Inl err, w1) \<Rightarrow> (Inl err, w1)
             | (Inr c, w1) \<Rightarrow>
                 (let narrativeText = trim c;
                      texts = chunkTexts narrativeText;
                      chunks =
                        map (\<lambda>(i, txt).
                               chunk_of (toISOString e (now e (clock_reads w1 + i))) txt)
                          (enumerate 0 texts)
                  in (Inr chunks, w1\<lparr>clock_reads := clock_reads w1 + length texts\<rparr>))))"

definition conversationText :: "message list \<Rightarrow> string" where
  "conversationText cache =
     foldl (\<lambda>text msg. text @ content msg @ ''\<newline>'') [] cache @ ''\<newline>summary:''"

definition summarize_request :: "message list \<Rightarrow> request" where
  "summarize_request cache =
     \<lparr>model = ''gpt-4o'',
      messages =
        [\<lparr>role = System,
          content = ''Summarize all the context in this following chat conversation concisely.''\<rparr>,
         \<lparr>role = User, content = conversationText cache\<rparr>],
      max_tokens = 1000, temperature = 0.12\<rparr>"

definition summarizeConversation ::
  "env \<Rightarrow> message list \<Rightarrow> world \<Rightarrow> (error + string) \<times> world" where
  "summarizeConversation e cache w = chat_create e (summarize_request cache) w"

section \<open>The vector memory store (vectorDB.js)\<close>

text \<open>
  Modelled from the spec: the Vector Backend (the chromadb package, which is not part of
  the repository), "a named collection supporting add, query, get, delete, count". The
  collection is the list of its records: \<open>count\<close> is its length, \<open>get\<close> returns the
  records, at most \<open>limit\<close> of them when a limit is given, \<open>delete\<close> removes the records
  that have one of the ids, \<open>add\<close> appends one record per id.
\<close>

definition backend_count :: "stored list \<Rightarrow> nat" where
  "backend_count coll = length coll"

definition backend_get :: "nat option \<Rightarrow> stored list \<Rightarrow> stored list" where
  "backend_get limit coll = (case limit of None \<Rightarrow> coll | Some n \<Rightarrow> take n coll)"

definition backend_delete :: "string list \<Rightarrow> stored list \<Rightarrow> stored list" where
  "backend_delete ids coll = filter (\<lambda>s. sid s \<notin> set ids) coll"

definition backend_add ::
  "string list \<Rightarrow> embedding list \<Rightarrow> string list \<Rightarrow> metadata list \<Rightarrow> stored list \<Rightarrow> stored list" where
  "backend_add ids embeddings documents metadatas coll =
     coll @
     map (\<lambda>(i, em, d, m). \<lparr>sid = i, sembedding = em, sdocument = d, smetadata = Some m\<rparr>)
       (zip ids (zip embeddings (zip documents metadatas)))"

text \<open>A request to the backend, which the backend may reject.\<close>

definition backend_request :: "env \<Rightarrow> backend_call \<Rightarrow> world \<Rightarrow> error option \<times> world" where
  "backend_request e c w =
     (backend e (length (backend_log w)) c, w\<lparr>backend_log := backend_log w @ [c]\<rparr>)"

text \<open>
  A method call on the module variable \<^verbatim>\<open>collection\<close>: a TypeError while the variable is
  still \<^verbatim>\<open>null\<close>, which no request reaches the backend for.
\<close>

definition null_collection :: error where
  "null_collection = Error None ''Cannot read properties of null''"

definition collection_request :: "env \<Rightarrow> backend_call \<Rightarrow> world \<Rightarrow> error option \<times> world" where
  "collection_request e c w =
     (if collection w then backend_request e c w else (Some null_collection, w))"

text \<open>
  \<^verbatim>\<open>initializeChroma\<close>: the client is created once; when \<^verbatim>\<open>getOrCreateCollection\<close>
  fails the error is thrown, \<^verbatim>\<open>client\<close> stays set and \<^verbatim>\<open>collection\<close> stays \<^verbatim>\<open>null\<close>.
\<close>

definition initializeChroma :: "env \<Rightarrow> world \<Rightarrow> (error + unit) \<times> world" where
  "initializeChroma e w =
     (if \<not> client w then
        (let w1 = w\<lparr>client := True\<rparr>
         in case backend_request e GetOrCreateCollection w1 of
              (Some err, w2) \<Rightarrow> (Inl err, w2)
            | (None, w2) \<Rightarrow> (Inr (), w2\<lparr>collection := True\<rparr>))
      else (Inr (), w))"

text \<open>\<^verbatim>\<open>searchMemories\<close>: every error is caught and answered with the empty array.\<close>

definition searchMemories :: "env \<Rightarrow> string \<Rightarrow> nat \<Rightarrow> world \<Rightarrow> hit list \<times> world" where
  "searchMemories e query limit w =
     (case initializeChroma e w of
        (Inl err, w1) \<Rightarrow> ([], w1)
      | (Inr _, w1) \<Rightarrow>
          (case generateEmbedding e query w1 of
             (Inl err, w2) \<Rightarrow> ([], w2)
           | (Inr queryEmbedding, w2) \<Rightarrow>
               (case collection_request e (Query queryEmbedding limit) w2 of
                  (Some err, w3) \<Rightarrow> ([], w3)
                | (None, w3) \<Rightarrow>
                    (let docs = query_result e queryEmbedding limit (memories w3)
                     in if length docs > 0
                        then (map (\<lambda>(doc, md, dist).
                                     \<lparr>hnarrative = doc,
                                      hmetadata = (case md of None \<Rightarrow> [] | Some m \<Rightarrow> m),
                                      hdistance = dist\<rparr>) docs, w3)
                        else ([], w3)))))"

text \<open>The loop of \<^verbatim>\<open>storeMemories\<close> that embeds the chunks one after the other.\<close>

fun embeddings_of :: "env \<Rightarrow> chunk list \<Rightarrow> world \<Rightarrow> (error + embedding list) \<times> world" where
  "embeddings_of e [] w = (Inr [], w)"
| "embeddings_of e (c # cs) w =
     (case generateEmbedding e (narrative c) w of
        (Inl err, w1) \<Rightarrow> (Inl err, w1)
      | (Inr em, w1) \<Rightarrow>
          (case embeddings_of e cs w1 of
             (Inl err, w2) \<Rightarrow> (Inl err, w2)
           | (Inr ems, w2) \<Rightarrow> (Inr (em # ems), w2)))"

text \<open>The identifier \<^verbatim>\<open>`chunk_${Date.now()}_${idx}`\<close>.\<close>

definition chunk_id :: "nat \<Rightarrow> nat \<Rightarrow> string" where
  "chunk_id t idx = ''chunk_'' @ show_nat t @ ''_'' @ show_nat idx"

text \<open>
  The identifiers of a batch of \<open>n\<close> chunks when the clock has been read \<open>k\<close> times: the
  callback reads the clock once for every chunk.
\<close>

definition ids_of :: "env \<Rightarrow> nat \<Rightarrow> nat \<Rightarrow> string list" where
  "ids_of e k n = map (\<lambda>idx. chunk_id (now e (k + idx)) idx) [0..<n]"

text \<open>\<^verbatim>\<open>storeMemories\<close>: every error is thrown again.\<close>

definition storeMemories :: "env \<Rightarrow> chunk list option \<Rightarrow> world \<Rightarrow> (error + unit) \<times> world" where
  "storeMemories e chunks w =
     (case initializeChroma e w of
        (Inl err, w1) \<Rightarrow> (Inl err, w1)
      | (Inr _, w1) \<Rightarrow>
          (case chunks of
             None \<Rightarrow> (Inr (), w1)
           | Some cs \<Rightarrow>
               if length cs = 0 then (Inr (), w1)
               else
                 (case embeddings_of e cs w1 of
                    (Inl err, w2) \<Rightarrow> (Inl err, w2)
                  | (Inr embeddings, w2) \<Rightarrow>
                      (let ids = ids_of e (clock_reads w2) (length cs);
                           documents = map narrative cs;
                           metadatas = map (\<lambda>c. case metadata c of None \<Rightarrow> [] | Some m \<Rightarrow> m) cs;
                           w3 = w2\<lparr>clock_reads := clock_reads w2 + length cs\<rparr>
                       in case collection_request e (Add ids embeddings documents metadatas) w3 of
                            (Some err, w4) \<Rightarrow> (Inl err, w4)
                          | (None, w4) \<Rightarrow>
                              (Inr (),
                               w4\<lparr>memories :=
                                    backend_add ids embeddings documents metadatas (memories w4)\<rparr>)))))"

text \<open>\<^verbatim>\<open>getAllMemories\<close>: every error is caught and answered with the empty array.\<close>

definition getAllMemories :: "env \<Rightarrow> world \<Rightarrow> memory list \<times> world" where
  "getAllMemories e w =
     (case initializeChroma e w of
        (Inl err, w1) \<Rightarrow> ([], w1)
      | (Inr _, w1) \<Rightarrow>
          (case collection_request e Count w1 of
             (Some err, w2) \<Rightarrow> ([], w2)
           | (None, w2) \<Rightarrow>
               (let count = backend_count (memories w2)
                in if count = 0 then ([], w2)
                   else
                     (case collection_request e (Get (Some count)) w2 of
                        (Some err, w3) \<Rightarrow> ([], w3)
                      | (None, w3) \<Rightarrow>
                          (let results = backend_get (Some count) (memories w3)
                           in if length results > 0
                              then (map (\<lambda>s. \<lparr>mid = sid s, mnarrative = sdocument s,
                                               mmetadata =
                                                 (case smetadata s of None \<Rightarrow> [] | Some m \<Rightarrow> m)\<rparr>)
                                      results, w3)
                              else ([], w3))))))"

text \<open>\<^verbatim>\<open>clearAllMemories\<close>: every error is thrown again.\<close>

definition clearAllMemories :: "env \<Rightarrow> world \<Rightarrow> (error + nat) \<times> world" where
  "clearAllMemories e w =
     (case initializeChroma e w of
        (Inl err, w1) \<Rightarrow> (Inl err, w1)
      | (Inr _, w1) \<Rightarrow>
          (case collection_request e Count w1 of
             (Some err, w2) \<Rightarrow> (Inl err, w2)
           | (None, w2) \<Rightarrow>
               (let count = backend_count (memories w2)
                in if count = 0 then (Inr 0, w2)
                   else
                     (case collection_request e (Get None) w2 of
                        (Some err, w3) \<Rightarrow> (Inl err, w3)
                      | (None, w3) \<Rightarrow>
                          (let ids = map sid (backend_get None (memories w3))
                           in if length ids > 0
                              then
                                (case collection_request e (Delete ids) w3 of
                                   (Some err, w4) \<Rightarrow> (Inl err, w4)
                                 | (None, w4) \<Rightarrow>
                                     (Inr count,
                                      w4\<lparr>memories := backend_delete ids (memories w4)\<rparr>))
                              else (Inr 0, w3))))))"

section \<open>The chat loop (index.js)\<close>

definition reformulate_system :: string where
  "reformulate_system = ''You are a search query optimizer. Convert user messages into effective search queries for finding relevant memories. Output only the query.''"

definition reformulate_prompt_head :: string where
  \<open>reformulate_prompt_head =
     ''Given this user input and recent conversation context, generate a concise search query to find relevant memories.\<newline>'' @
     ''\<newline>'' @
     ''Recent context:\<newline>''\<close>

definition reformulate_prompt_mid :: string where
  \<open>reformulate_prompt_mid =
     ''\<newline>'' @
     ''\<newline>'' @
     ''User input: "''\<close>

definition reformulate_prompt_tail :: string where
  \<open>reformulate_prompt_tail =
     ''"\<newline>'' @
     ''\<newline>'' @
     ''Generate a search query that captures:\<newline>'' @
     ''- What the user is asking about\<newline>'' @
     ''- Key entities, topics, or concepts\<newline>'' @
     ''- Implicit references from context\<newline>'' @
     ''\<newline>'' @
     ''Output ONLY the search query, nothing else. Keep it under 20 words.''\<close>

definition contextStr :: "message list \<Rightarrow> string" where
  "contextStr recentContext =
     join ''\<newline>''
       (map (\<lambda>msg. role_name (role msg) @ '': '' @ content msg)
          (drop (length recentContext - 4) recentContext))"

definition reformulate_request :: "string \<Rightarrow> message list \<Rightarrow> request" where
  "reformulate_request input recentContext =
     \<lparr>model = ''gpt-4o-mini'',
      messages =
        [\<lparr>role = System, content = reformulate_system\<rparr>,
         \<lparr>role = User,
          content =
            reformulate_prompt_head @
            (if contextStr recentContext \<noteq> [] then contextStr recentContext
             else ''No recent context'') @
            reformulate_prompt_mid @ input @ reformulate_prompt_tail\<rparr>],
      max_tokens = 100, temperature = 0.3\<rparr>"

text \<open>\<^verbatim>\<open>reformulateQuery\<close>: every error is caught and answered with the input.\<close>

definition reformulateQuery :: "env \<Rightarrow> string \<Rightarrow> message list \<Rightarrow> world \<Rightarrow> string \<times> world" where
  "reformulateQuery e input recentContext w =
     (case chat_create e (reformulate_request input recentContext) w of
        (Inl err, w1) \<Rightarrow> (input, w1)
      | (Inr c, w1) \<Rightarrow> (trim c, w1))"

definition chat_request :: "hit list \<Rightarrow> message list \<Rightarrow> string \<Rightarrow> request" where
  "chat_request relevantMemories cache input =
     \<lparr>model = ''gpt-4o'',
      messages =
        [\<lparr>role = System,
          content = ''You are a helpful AI assistant. Keep your responses concise and friendly.''\<rparr>] @
        (if length relevantMemories > 0
         then [\<lparr>role = System,
                content = ''Relevant memories from past conversations: '' @
                          join '' | '' (map hnarrative relevantMemories)\<rparr>]
         else []) @
        cache @ [\<lparr>role = User, content = input\<rparr>],
      max_tokens = 1000, temperature = 0.7\<rparr>"

text \<open>The turn that seeds the cache after a summarization.\<close>

definition seeded :: "string \<Rightarrow> message" where
  "seeded summary = \<lparr>role = User, content = ''Previous conversation context: '' @ summary\<rparr>"

text \<open>
  \<^verbatim>\<open>handleChat\<close>. The function returns nothing, and its \<^verbatim>\<open>catch\<close> only prints: an error of
  the chat request or of the summarization ends the call with the state as it is then.
\<close>

definition handleChat :: "env \<Rightarrow> string \<Rightarrow> world \<Rightarrow> world" where
  "handleChat e input w =
     (case reformulateQuery e input (conversationCache w) w of
        (searchQuery, w1) \<Rightarrow>
          (case searchMemories e searchQuery 3 w1 of
             (relevantMemories, w2) \<Rightarrow>
               (case chat_create e (chat_request relevantMemories (conversationCache w2) input) w2 of
                  (Inl err, w3) \<Rightarrow> w3
                | (Inr reply, w3) \<Rightarrow>
                    (let w4 = w3\<lparr>conversationCache :=
                                    conversationCache w3 @
                                    [\<lparr>role = User, content = input\<rparr>,
                                     \<lparr>role = Assistant, content = reply\<rparr>]\<rparr>
                     in if length (conversationCache w4) \<ge> CACHE_LIMIT
                        then
                          (case summarizeConversation e (conversationCache w4) w4 of
                             (Inl err, w5) \<Rightarrow> w5
                           | (Inr newSummary, w5) \<Rightarrow>
                               (let merged =
                                      (if currentSummary w5 \<noteq> []
                                       then currentSummary w5 @ ''\<newline>\<newline>'' @ newSummary
                                       else newSummary)
                                in w5\<lparr>currentSummary := merged,
                                      conversationCache := [seeded merged]\<rparr>))
                        else w4))))"

text \<open>A sequence of chat turns, one call of \<^verbatim>\<open>handleChat\<close> after the other.\<close>

fun chat_turns :: "env \<Rightarrow> string list \<Rightarrow> world \<Rightarrow> world" where
  "chat_turns e [] w = w"
| "chat_turns e (input # inputs) w = chat_turns e inputs (handleChat e input w)"

text \<open>
  The first part of the \<^verbatim>\<open>try\<close> block of \<^verbatim>\<open>processSummaries\<close>, which builds
  \<^verbatim>\<open>contextsToProcess\<close>.
\<close>

definition contextsToProcess :: "env \<Rightarrow> world \<Rightarrow> (error + string list) \<times> world" where
  "contextsToProcess e w =
     (let contexts = (if currentSummary w \<noteq> [] then [currentSummary w] else [])
      in if length (conversationCache w) > 1
         then
           (case summarizeConversation e (conversationCache w) w of
              (Inl err, w1) \<Rightarrow> (Inl err, w1)
            | (Inr residualSummary, w1) \<Rightarrow> (Inr (contexts @ [residualSummary]), w1))
         else (Inr contexts, w))"

text \<open>
  \<^verbatim>\<open>processSummaries\<close>. The function returns nothing, and its \<^verbatim>\<open>catch\<close> only prints.
\<close>

definition processSummaries :: "env \<Rightarrow> world \<Rightarrow> world" where
  "processSummaries e w =
     (if currentSummary w = [] \<and> length (conversationCache w) = 0 then w
      else
        (case contextsToProcess e w of
           (Inl err, w1) \<Rightarrow> w1
         | (Inr contexts, w1) \<Rightarrow>
             if length contexts = 0 then w1
             else
               (case processConversations e (Some contexts) w1 of
                  (Inl err, w2) \<Rightarrow> w2
                | (Inr chunks, w2) \<Rightarrow>
                    if length chunks > 0
                    then
                      (case storeMemories e (Some chunks) w2 of
                         (Inl err, w3) \<Rightarrow> w3
                       | (Inr _, w3) \<Rightarrow> w3\<lparr>currentSummary := [], conversationCache := []\<rparr>)
                    else w2)))"

section \<open>Notions used to state the properties\<close>

text \<open>The session state: the conversation buffer and the rolling summary.\<close>

definition session :: "world \<Rightarrow> message list \<times> string" where
  "session w = (conversationCache w, currentSummary w)"

text \<open>
  The words of a text, read off one character at a time: the maximal runs of characters
  that are not white space. \<open>cur\<close> is the word being read.
\<close>

fun words_from :: "string \<Rightarrow> string \<Rightarrow> string list" where
  "words_from cur [] = (if cur = [] then [] else [cur])"
| "words_from cur (c # cs) =
     (if is_space c then (if cur = [] then words_from [] cs else cur # words_from [] cs)
      else words_from (cur @ [c]) cs)"

definition words :: "string \<Rightarrow> string list" where
  "words s = words_from [] s"

definition word_count :: "string \<Rightarrow> nat" where
  "word_count s = length (words s)"

text \<open>A text that is not empty and neither starts nor ends with white space.\<close>

definition trimmed :: "string \<Rightarrow> bool" where
  "trimmed s \<longleftrightarrow> s \<noteq> [] \<and> \<not> is_space (hd s) \<and> \<not> is_space (last s)"

text \<open>
  The topics as the specification words them: the first three distinct words longer than
  five characters, lower-cased.
\<close>

definition spec_topics :: "string \<Rightarrow> string list" where
  "spec_topics s =
     take 3 (rev (remdups (rev (filter (\<lambda>word. 5 < length word) (map toLowerCase (words s))))))"

text \<open>Services that answer every request, used to run the program on examples.\<close>

definition env_ok :: env where
  "env_ok =
     \<lparr>complete = (\<lambda>k r. Inr ''a b c d e f g h i j''), embed = (\<lambda>k t. Inr [1]),
      backend = (\<lambda>k c. None), query_result = (\<lambda>q n coll. []), now = (\<lambda>k. 5 + k),
      toISOString = (\<lambda>t. show_nat t)\<rparr>"

definition down :: error where
  "down = Error (Some 429) ''unavailable''"

definition env_banana :: env where
  "env_banana = env_ok\<lparr>complete := \<lambda>k r. Inr ''banana banana banana a b c d e f g''\<rparr>"

definition world_tokyo :: world where
  "world_tokyo = initial_world\<lparr>currentSummary := ''User lives in Tokyo.''\<rparr>"

definition world_two :: world where
  "world_two =
     initial_world\<lparr>memories :=
       [\<lparr>sid = ''chunk_5_0'', sembedding = [1], sdocument = ''first'', smetadata = Some []\<rparr>,
        \<lparr>sid = ''chunk_5_1'', sembedding = [1], sdocument = ''second'', smetadata = Some []\<rparr>]\<rparr>"

text \<open>A clock that stays within one millisecond, and a chunk to store.\<close>

definition env_stuck :: env where
  "env_stuck = env_ok\<lparr>now := \<lambda>k. 5\<rparr>"

definition chunk_tokyo :: chunk where
  "chunk_tokyo = \<lparr>narrative = ''User lives in Tokyo.'', metadata = None\<rparr>"

text \<open>A Generation Service that fails on its ninth request and answers the others.\<close>

definition env_no_summary :: env where
  "env_no_summary = env_ok\<lparr>complete := \<lambda>k r. if k = 8 then Inl down else Inr ''fine''\<rparr>"

text \<open>The number that a string of decimal digits denotes.\<close>

definition dec_val :: "string \<Rightarrow> nat" where
  "dec_val s = foldl (\<lambda>a c. 10 * a + (of_char c - 48)) 0 s"

text \<open>
  The first part of \<^verbatim>\<open>handleChat\<close>, up to the answer to the chat request, and the state
  after the exchange has been pushed on the cache.
\<close>

definition chat_outcome :: "env \<Rightarrow> string \<Rightarrow> world \<Rightarrow> (error + string) \<times> world" where
  "chat_outcome e input w =
     (case reformulateQuery e input (conversationCache w) w of
        (searchQuery, w1) \<Rightarrow>
          (case searchMemories e searchQuery 3 w1 of
             (relevantMemories, w2) \<Rightarrow>
               chat_create e (chat_request relevantMemories (conversationCache w2) input) w2))"

definition pushed :: "string \<Rightarrow> string \<Rightarrow> world \<Rightarrow> world" where
  "pushed input reply w3 =
     w3\<lparr>conversationCache :=
          conversationCache w3 @
          [\<lparr>role = User, content = input\<rparr>, \<lparr>role = Assistant, content = reply\<rparr>]\<rparr>"

text \<open>
  The turn reaches the limit and the summarization request that it sends fails; and a
  sequence of turns in which no turn does.
\<close>

definition summarization_fails :: "env \<Rightarrow> string \<Rightarrow> world \<Rightarrow> bool" where
  "summarization_fails e input w =
     (case chat_outcome e input w of
        (Inl err, w3) \<Rightarrow> False
      | (Inr reply, w3) \<Rightarrow>
          length (conversationCache (pushed input reply w3)) \<ge> CACHE_LIMIT \<and>
          (case summarizeConversation e (conversationCache (pushed input reply w3))
                  (pushed input reply w3) of
             (Inl err, w5) \<Rightarrow> True
           | (Inr newSummary, w5) \<Rightarrow> False))"

fun summarizations_succeed :: "env \<Rightarrow> string list \<Rightarrow> world \<Rightarrow> bool" where
  "summarizations_succeed e [] w = True"
| "summarizations_succeed e (input # inputs) w =
     (\<not> summarization_fails e input w \<and> summarizations_succeed e inputs (handleChat e input w))"

text \<open>A cache of five turns, and a store whose collection has been opened.\<close>

definition turn_x :: message where
  "turn_x = \<lparr>role = User, content = ''x''\<rparr>"

definition world_five :: world where
  "world_five = initial_world\<lparr>conversationCache := [turn_x, turn_x, turn_x, turn_x, turn_x]\<rparr>"

definition world_ready :: world where
  "world_ready = world_two\<lparr>client := True, collection := True\<rparr>"

text \<open>Backends that reject the count, the delete and the add.\<close>

definition env_count_down :: env where
  "env_count_down = env_ok\<lparr>backend := \<lambda>k c. if c = Count then Some down else None\<rparr>"

definition env_delete_down :: env where
  "env_delete_down =
     env_ok\<lparr>backend := \<lambda>k c. case c of Delete ids \<Rightarrow> Some down | _ \<Rightarrow> None\<rparr>"

definition env_add_down :: env where
  "env_add_down =
     env_ok\<lparr>backend := \<lambda>k c. case c of Add ids ems ds ms \<Rightarrow> Some down | _ \<Rightarrow> None\<rparr>"

section \<open>What the calls leave unchanged\<close>

lemma chat_create_frame:
  assumes "chat_create e r w = (res, w')"
  shows "session w' = session w" and "memories w' = memories w"
    and "clock_reads w' = clock_reads w" and "backend_log w' = backend_log w"
    and "client w' = client w" and "collection w' = collection w"
  using assms by (auto simp: chat_create_def session_def)

lemma initializeChroma_frame:
  assumes "initializeChroma e w = (res, w')"
  shows "session w' = session w" and "memories w' = memories w"
    and "clock_reads w' = clock_reads w" and "gen_log w' = gen_log w"
  using assms
  by (auto simp: initializeChroma_def backend_request_def session_def Let_def
      split: if_splits option.splits)

lemma collection_request_frame:
  assumes "collection_request e c w = (res, w')"
  shows "session w' = session w" and "memories w' = memories w"
    and "clock_reads w' = clock_reads w" and "gen_log w' = gen_log w"
    and "client w' = client w" and "collection w' = collection w"
  using assms
  by (auto simp: collection_request_def backend_request_def session_def split: if_splits)

lemma generateEmbedding_frame:
  assumes "generateEmbedding e t w = (res, w')"
  shows "session w' = session w" and "memories w' = memories w"
    and "clock_reads w' = clock_reads w" and "gen_log w' = gen_log w"
    and "client w' = client w" and "collection w' = collection w"
    and "backend_log w' = backend_log w"
  using assms by (auto simp: generateEmbedding_def session_def)

lemma embeddings_of_frame:
  "embeddings_of e cs w = (res, w') \<Longrightarrow>
     session w' = session w \<and> memories w' = memories w \<and> clock_reads w' = clock_reads w \<and>
     gen_log w' = gen_log w \<and> client w' = client w \<and> collection w' = collection w \<and>
     backend_log w' = backend_log w"
proof (induction cs arbitrary: w res w')
  case Nil
  then show ?case by simp
next
  case (Cons c cs)
  obtain r1 w1 where g: "generateEmbedding e (narrative c) w = (r1, w1)"
    by (cases "generateEmbedding e (narrative c) w")
  note f1 = generateEmbedding_frame [OF g]
  show ?case
  proof (cases r1)
    case (Inl err)
    with Cons.prems g have "w' = w1" by simp
    with f1 show ?thesis by simp
  next
    case (Inr em)
    obtain r2 w2 where h: "embeddings_of e cs w1 = (r2, w2)"
      by (cases "embeddings_of e cs w1")
    from Cons.prems g Inr h have "w' = w2" by (auto split: sum.splits)
    with Cons.IH [OF h] f1 show ?thesis by simp
  qed
qed

lemma embeddings_of_length:
  "embeddings_of e cs w = (Inr ems, w') \<Longrightarrow> length ems = length cs"
proof (induction cs arbitrary: w ems w')
  case Nil
  then show ?case by simp
next
  case (Cons c cs)
  then show ?case
    by (auto split: prod.splits sum.splits)
qed

lemma summarizeConversation_frame:
  assumes "summarizeConversation e cache w = (res, w')"
  shows "session w' = session w" and "memories w' = memories w"
  using assms chat_create_frame unfolding summarizeConversation_def by blast+

lemma processConversations_frame:
  assumes "processConversations e summaries w = (res, w')"
  shows "session w' = session w"
  using assms
  by (auto simp: processConversations_def chat_create_def session_def Let_def
      split: option.splits if_splits sum.splits prod.splits)

lemma storeMemories_frame:
  assumes "storeMemories e chunks w = (res, w')"
  shows "session w' = session w"
proof -
  obtain r1 w1 where i: "initializeChroma e w = (r1, w1)"
    by (cases "initializeChroma e w")
  note f1 = initializeChroma_frame(1) [OF i]
  show ?thesis
  proof (cases "\<exists>cs. r1 = Inr () \<and> chunks = Some cs \<and> cs \<noteq> []")
    case False
    with assms i have "w' = w1"
      by (auto simp: storeMemories_def split: sum.splits option.splits if_splits)
    with f1 show ?thesis by simp
  next
    case True
    then obtain cs where cs: "r1 = Inr ()" "chunks = Some cs" "cs \<noteq> []" by blast
    obtain r2 w2 where em: "embeddings_of e cs w1 = (r2, w2)"
      by (cases "embeddings_of e cs w1")
    from embeddings_of_frame [OF em] have f2: "session w2 = session w1" by simp
    show ?thesis
    proof (cases r2)
      case (Inl err)
      with assms i cs em have "w' = w2" by (simp add: storeMemories_def)
      with f1 f2 show ?thesis by simp
    next
      case (Inr ems)
      with assms i cs em f1 f2 show ?thesis
        by (auto simp: storeMemories_def Let_def collection_request_def backend_request_def
            session_def split: if_splits option.splits)
    qed
  qed
qed

lemma contextsToProcess_frame:
  assumes "contextsToProcess e w = (res, w')"
  shows "session w' = session w"
  using assms summarizeConversation_frame(1)
  by (fastforce simp: contextsToProcess_def Let_def split: if_splits sum.splits prod.splits)

section \<open>Evaluation on examples\<close>

lemma digit_char_eval:
  "digit_char 0 = CHR ''0''" "digit_char 1 = CHR ''1''" "digit_char 2 = CHR ''2''"
  "digit_char 3 = CHR ''3''" "digit_char 4 = CHR ''4''" "digit_char 5 = CHR ''5''"
  "digit_char 6 = CHR ''6''" "digit_char 7 = CHR ''7''" "digit_char 8 = CHR ''8''"
  "digit_char 9 = CHR ''9''" "digit_char (Suc 0) = CHR ''1''"
  by (simp_all add: digit_char_def char_of_def bit_Suc_0_iff)

lemmas store_eval = initializeChroma_def backend_request_def collection_request_def
  generateEmbedding_def env_ok_def initial_world_def

lemma chunkTexts_example: "chunkTexts (trim ''a b c d e f g h i j'') = [''a b c d e f g h i j'']"
  by (simp add: chunkTexts_def trim_def split_ws.simps is_space_def)

lemma words_example:
  "words ''a b c d e f g h i j'' = [''a'', ''b'', ''c'', ''d'', ''e'', ''f'', ''g'', ''h'', ''i'', ''j'']"
  by (simp add: words_def is_space_def)

section \<open>Words and white space\<close>

lemma words_from_unfold:
  "words_from cur s =
     (if cur @ takeWhile (\<lambda>c. \<not> is_space c) s = [] then []
      else [cur @ takeWhile (\<lambda>c. \<not> is_space c) s]) @
     (case dropWhile (\<lambda>c. \<not> is_space c) s of [] \<Rightarrow> [] | c # cs \<Rightarrow> words_from [] cs)"
  by (induction s arbitrary: cur) auto

lemma words_from_skip: "words_from [] (dropWhile is_space s) = words_from [] s"
  by (induction s) auto

lemma words_step:
  assumes "dropWhile (\<lambda>c. \<not> is_space c) s \<noteq> []"
  shows "words s =
     (if takeWhile (\<lambda>c. \<not> is_space c) s = [] then [] else [takeWhile (\<lambda>c. \<not> is_space c) s]) @
     words (dropWhile is_space (dropWhile (\<lambda>c. \<not> is_space c) s))"
proof -
  obtain c cs where r: "dropWhile (\<lambda>c. \<not> is_space c) s = c # cs"
    using assms by (cases "dropWhile (\<lambda>c. \<not> is_space c) s") auto
  from hd_dropWhile [OF assms] r have sp: "is_space c" by simp
  have "words_from [] (dropWhile is_space (c # cs)) = words_from [] cs"
    using sp words_from_skip [of cs] by simp
  then show ?thesis
    unfolding words_def using r by (subst words_from_unfold) simp
qed

lemma words_no_space:
  assumes "dropWhile (\<lambda>c. \<not> is_space c) s = []"
  shows "words s = (if s = [] then [] else [s])"
proof -
  have "takeWhile (\<lambda>c. \<not> is_space c) s @ dropWhile (\<lambda>c. \<not> is_space c) s = s"
    by (rule takeWhile_dropWhile_id)
  then have tw: "takeWhile (\<lambda>c. \<not> is_space c) s = s"
    unfolding assms by simp
  show ?thesis
    unfolding words_def by (subst words_from_unfold) (simp add: tw assms)
qed

lemma split_ws_trimmed: "trimmed s \<Longrightarrow> split_ws s = words s"
proof (induction s rule: split_ws.induct)
  case (1 s)
  let ?w = "takeWhile (\<lambda>c. \<not> is_space c) s"
  let ?r = "dropWhile (\<lambda>c. \<not> is_space c) s"
  from "1.prems" have ne: "s \<noteq> []" and h: "\<not> is_space (hd s)" and l: "\<not> is_space (last s)"
    by (simp_all add: trimmed_def)
  show ?case
  proof (cases "?r = []")
    case True
    have "split_ws s = [?w]"
      by (subst split_ws.simps) (simp add: True del: dropWhile_eq_Nil_conv)
    moreover have "?w @ ?r = s" by (rule takeWhile_dropWhile_id)
    then have "?w = s" unfolding True by simp
    ultimately show ?thesis using ne words_no_space [OF True] by simp
  next
    case False
    let ?s' = "dropWhile is_space ?r"
    from ne h have wne: "?w \<noteq> []" by (cases s) auto
    have sr: "?w @ ?r = s" by (rule takeWhile_dropWhile_id)
    have lr: "last ?r = last s"
      using last_appendR [OF False, of ?w] unfolding sr by simp
    have "last ?r \<in> set ?r" using False by (rule last_in_set)
    with l lr have ex: "\<exists>x\<in>set ?r. \<not> is_space x" by auto
    have s'ne: "?s' \<noteq> []"
    proof
      assume "?s' = []"
      then have "\<forall>x\<in>set ?r. is_space x" by (simp only: dropWhile_eq_Nil_conv)
      with ex show False by blast
    qed
    have rs: "takeWhile is_space ?r @ ?s' = ?r" by (rule takeWhile_dropWhile_id)
    have "last ?s' = last ?r"
      using last_appendR [OF s'ne, of "takeWhile is_space ?r"] unfolding rs by simp
    with lr l have l': "\<not> is_space (last ?s')" by simp
    from hd_dropWhile [OF s'ne] have h': "\<not> is_space (hd ?s')" .
    from s'ne h' l' have "trimmed ?s'" unfolding trimmed_def by blast
    with "1.IH" [OF refl refl False] have ih: "split_ws ?s' = words ?s'" .
    have "split_ws s = ?w # split_ws ?s'"
      by (subst split_ws.simps) (simp add: False del: dropWhile_eq_Nil_conv)
    moreover have "words s = ?w # words ?s'"
      by (subst words_step [OF False]) (simp add: wne del: takeWhile_eq_Nil_iff)
    ultimately show ?thesis using ih by simp
  qed
qed

lemma trim_trimmed:
  assumes ne: "trim s \<noteq> []"
  shows "trimmed (trim s)"
proof -
  let ?u = "dropWhile is_space s"
  let ?v = "dropWhile is_space (rev ?u)"
  have t: "trim s = rev ?v" by (simp add: trim_def)
  have vne: "?v \<noteq> []"
  proof
    assume "?v = []"
    then have "trim s = []" unfolding t by (simp only: rev.simps)
    with ne show False by contradiction
  qed
  have une: "?u \<noteq> []"
  proof
    assume a: "?u = []"
    have "?v = []" unfolding a by simp
    with vne show False by contradiction
  qed
  from hd_dropWhile [OF vne] have hv: "\<not> is_space (hd ?v)" .
  have "last (rev ?v) = hd ?v" by (rule last_rev)
  with hv have l: "\<not> is_space (last (trim s))" unfolding t by simp
  have uv: "takeWhile is_space (rev ?u) @ ?v = rev ?u" by (rule takeWhile_dropWhile_id)
  have "last ?v = last (rev ?u)"
    using last_appendR [OF vne, of "takeWhile is_space (rev ?u)"] unfolding uv by simp
  also have "\<dots> = hd ?u" by (rule last_rev)
  finally have lv: "last ?v = hd ?u" .
  from hd_dropWhile [OF une] have "\<not> is_space (hd ?u)" .
  with lv have "\<not> is_space (last ?v)" by simp
  moreover have "hd (rev ?v) = last ?v" by (rule hd_rev)
  ultimately have h: "\<not> is_space (hd (trim s))" unfolding t by simp
  from ne h l show ?thesis unfolding trimmed_def by blast
qed

lemma chunkTexts_words:
  "chunkTexts t =
     filter (\<lambda>x. x \<noteq> [] \<and> 10 \<le> word_count x \<and> word_count x \<le> 200)
       (map trim (split_on (CHR ''|'') t))"
proof -
  have "\<And>x. x \<in> set (map trim (split_on (CHR ''|'') t)) \<Longrightarrow>
      (0 < length x \<and> 10 \<le> length (split_ws x) \<and> length (split_ws x) \<le> 200) =
      (x \<noteq> [] \<and> 10 \<le> word_count x \<and> word_count x \<le> 200)"
    using trim_trimmed split_ws_trimmed by (auto simp: word_count_def)
  then show ?thesis
    unfolding chunkTexts_def Let_def filter_filter by (intro filter_cong refl) 
qed

lemma is_space_code:
  "is_space c \<longleftrightarrow> (of_char c :: nat) \<in> {9, 10, 11, 12, 13, 32, 160}"
proof -
  have h: "\<And>d. (c = d) = ((of_char c :: nat) = of_char d)" by simp
  show ?thesis unfolding is_space_def by (simp only: h) simp
qed

lemma is_space_lower_char: "is_space (lower_char c) = is_space c"
proof -
  let ?n = "of_char c :: nat"
  show ?thesis
  proof (cases "(65 \<le> ?n \<and> ?n \<le> 90) \<or> (192 \<le> ?n \<and> ?n \<le> 222 \<and> ?n \<noteq> 215)")
    case False
    then have "lower_char c = c" unfolding lower_char_def Let_def by (simp only: if_False)
    then show ?thesis by simp
  next
    case True
    then have lc: "lower_char c = char_of (?n + 32)"
      unfolding lower_char_def Let_def by (simp only: if_True)
    from True have "(?n + 32) mod 256 = ?n + 32" by auto
    then have "(of_char (lower_char c) :: nat) = ?n + 32"
      unfolding lc by (simp only: of_char_of)
    with True show ?thesis unfolding is_space_code by auto
  qed
qed

lemma words_from_map:
  assumes "\<And>c. is_space (f c) = is_space c"
  shows "words_from (map f cur) (map f s) = map (map f) (words_from cur s)"
proof (induction s arbitrary: cur)
  case Nil
  then show ?case by simp
next
  case (Cons c cs)
  from Cons.IH [of "[]"] Cons.IH [of "cur @ [c]"] assms show ?case by simp
qed

lemma words_toLowerCase: "words (toLowerCase s) = map toLowerCase (words s)"
  unfolding words_def using words_from_map [of lower_char "[]" s]
  by (simp add: is_space_lower_char toLowerCase_def [abs_def])

lemma trimmed_toLowerCase: "trimmed s \<Longrightarrow> trimmed (toLowerCase s)"
  by (simp add: trimmed_def toLowerCase_def hd_map last_map is_space_lower_char)

lemma topics_words:
  assumes "trimmed s"
  shows "topics s = take 3 (filter (\<lambda>word. 5 < length word) (map toLowerCase (words s)))"
  using split_ws_trimmed [OF trimmed_toLowerCase [OF assms]]
  by (simp add: topics_def words_toLowerCase)

lemma chunkTexts_trimmed: "x \<in> set (chunkTexts t) \<Longrightarrow> trimmed x"
  unfolding chunkTexts_words using trim_trimmed by auto

lemma processConversations_chunks:
  assumes "processConversations e summaries w = (Inr chunks, w')"
  shows "chunks = [] \<and> (summaries = None \<or> summaries = Some []) \<or>
    (\<exists>ss reply. summaries = Some ss \<and> ss \<noteq> [] \<and>
       complete e (length (gen_log w)) (extraction_request ss) = Inr reply \<and>
       chunks = map (\<lambda>(i, txt). chunk_of (toISOString e (now e (clock_reads w + i))) txt)
                  (enumerate 0 (chunkTexts (trim reply))))"
  using assms
  by (auto simp: processConversations_def chat_create_def Let_def
      split: option.splits if_splits sum.splits)


section \<open>The store after a call\<close>

lemma clearAllMemories_success:
  assumes "clearAllMemories e w = (Inr n, w')"
  shows "n = length (memories w) \<and> memories w' = []"
proof -
  obtain r1 w1 where i: "initializeChroma e w = (r1, w1)"
    by (cases "initializeChroma e w")
  obtain r2 w2 where c: "collection_request e Count w1 = (r2, w2)"
    by (cases "collection_request e Count w1")
  obtain r3 w3 where g: "collection_request e (Get None) w2 = (r3, w3)"
    by (cases "collection_request e (Get None) w2")
  obtain r4 w4 where d: "collection_request e (Delete (map sid (memories w3))) w3 = (r4, w4)"
    by (cases "collection_request e (Delete (map sid (memories w3))) w3")
  have m: "memories w1 = memories w" "memories w2 = memories w" "memories w3 = memories w"
    "memories w4 = memories w"
    using initializeChroma_frame(2) [OF i] collection_request_frame(2) [OF c]
      collection_request_frame(2) [OF g] collection_request_frame(2) [OF d] by simp_all
  have del: "backend_delete (map sid (memories w)) (memories w) = []"
    by (simp add: backend_delete_def filter_empty_conv)
  show ?thesis
    using assms i c g d m del
    by (auto simp: clearAllMemories_def Let_def backend_count_def backend_get_def
        split: sum.splits option.splits if_splits)
qed

lemma getAllMemories_empty_store:
  assumes "memories w = []"
  shows "fst (getAllMemories e w) = []"
proof -
  obtain r1 w1 where i: "initializeChroma e w = (r1, w1)"
    by (cases "initializeChroma e w")
  obtain r2 w2 where c: "collection_request e Count w1 = (r2, w2)"
    by (cases "collection_request e Count w1")
  from initializeChroma_frame(2) [OF i] collection_request_frame(2) [OF c] assms
  have "memories w2 = []" by simp
  with i c show ?thesis
    by (cases r1; cases r2) (simp_all add: getAllMemories_def backend_count_def)
qed

lemma handleChat_sends_chat_request:
  assumes "reformulateQuery e input (conversationCache w) w = (searchQuery, w1)"
    and "searchMemories e searchQuery 3 w1 = (found, w2)"
  shows "chat_request found (conversationCache w) input \<in> set (gen_log (handleChat e input w))"
proof -
  from assms(1) have c1: "conversationCache w1 = conversationCache w"
    by (auto simp: reformulateQuery_def chat_create_def split: sum.splits)
  from assms(2) have c2: "conversationCache w2 = conversationCache w1"
    by (auto simp: searchMemories_def initializeChroma_def backend_request_def
        collection_request_def generateEmbedding_def Let_def
        split: sum.splits option.splits if_splits prod.splits)
  show ?thesis
    using assms c1 c2
    by (auto simp: handleChat_def chat_create_def summarizeConversation_def Let_def
        split: sum.splits)
qed

section \<open>Identifiers\<close>

lemma of_char_digit_char: "d < 10 \<Longrightarrow> (of_char (digit_char d) :: nat) = 48 + d"
  unfolding digit_char_def by (simp only: of_char_of) simp

lemma dec_val_show_nat: "dec_val (show_nat n) = n"
proof (induction n rule: show_nat.induct)
  case (1 n)
  show ?case
  proof (cases "n < 10")
    case True
    then show ?thesis
      by (subst show_nat.simps) (simp add: dec_val_def of_char_digit_char)
  next
    case False
    have d: "(of_char (digit_char (n mod 10)) :: nat) = 48 + n mod 10"
      by (rule of_char_digit_char) simp
    from "1.IH" [OF False] have ih: "dec_val (show_nat (n div 10)) = n div 10" .
    have "dec_val (show_nat n) = 10 * dec_val (show_nat (n div 10)) + n mod 10"
      using False by (subst show_nat.simps) (simp add: dec_val_def d)
    then show ?thesis unfolding ih by simp
  qed
qed

lemma show_nat_inj: "show_nat a = show_nat b \<Longrightarrow> a = b"
  by (metis dec_val_show_nat)

lemma show_nat_digits: "c \<in> set (show_nat n) \<Longrightarrow> \<exists>d<10. c = digit_char d"
proof (induction n rule: show_nat.induct)
  case (1 n)
  show ?case
  proof (cases "n < 10")
    case True
    with "1.prems" have "c = digit_char n" by (subst (asm) show_nat.simps) simp
    with True show ?thesis by blast
  next
    case False
    with "1.prems" have "c \<in> set (show_nat (n div 10)) \<or> c = digit_char (n mod 10)"
      by (subst (asm) show_nat.simps) auto
    then show ?thesis
    proof
      assume "c \<in> set (show_nat (n div 10))"
      with "1.IH" [OF False] show ?thesis .
    next
      assume "c = digit_char (n mod 10)"
      moreover have "n mod 10 < 10" by simp
      ultimately show ?thesis by blast
    qed
  qed
qed

lemma underscore_not_in_show_nat: "CHR ''_'' \<notin> set (show_nat n)"
proof
  assume "CHR ''_'' \<in> set (show_nat n)"
  then obtain d where d: "d < 10" "CHR ''_'' = digit_char d"
    using show_nat_digits by blast
  from d(2) have "(of_char (CHR ''_'') :: nat) = of_char (digit_char d)" by simp
  with of_char_digit_char [OF d(1)] d(1) show False by simp
qed

lemma chunk_id_inj: "chunk_id t i = chunk_id t' i' \<longleftrightarrow> t = t' \<and> i = i'"
proof
  assume "chunk_id t i = chunk_id t' i'"
  then have "show_nat t @ CHR ''_'' # show_nat i = show_nat t' @ CHR ''_'' # show_nat i'"
    by (simp add: chunk_id_def)
  then have "show_nat t = show_nat t' \<and> show_nat i = show_nat i'"
    using underscore_not_in_show_nat by (simp add: append_Cons_eq_iff)
  then show "t = t' \<and> i = i'" using show_nat_inj by blast
qed simp

lemma distinct_ids_of: "distinct (ids_of e k n)"
  unfolding ids_of_def by (simp add: distinct_map inj_on_def chunk_id_inj)

lemma ids_of_disjoint:
  "set (ids_of e k n) \<inter> set (ids_of e k' m) = {} \<longleftrightarrow>
     (\<forall>idx. idx < n \<and> idx < m \<longrightarrow> now e (k + idx) \<noteq> now e (k' + idx))"
proof
  assume d: "set (ids_of e k n) \<inter> set (ids_of e k' m) = {}"
  show "\<forall>idx. idx < n \<and> idx < m \<longrightarrow> now e (k + idx) \<noteq> now e (k' + idx)"
  proof (intro allI impI notI)
    fix idx
    assume i: "idx < n \<and> idx < m" and eq: "now e (k + idx) = now e (k' + idx)"
    from i have "chunk_id (now e (k + idx)) idx \<in> set (ids_of e k n)"
      by (simp add: ids_of_def)
    moreover from i eq have "chunk_id (now e (k + idx)) idx \<in> set (ids_of e k' m)"
      by (simp add: ids_of_def)
    ultimately show False using d by blast
  qed
next
  assume a: "\<forall>idx. idx < n \<and> idx < m \<longrightarrow> now e (k + idx) \<noteq> now e (k' + idx)"
  show "set (ids_of e k n) \<inter> set (ids_of e k' m) = {}"
  proof (rule ccontr)
    assume "set (ids_of e k n) \<inter> set (ids_of e k' m) \<noteq> {}"
    then obtain x where "x \<in> set (ids_of e k n)" "x \<in> set (ids_of e k' m)" by blast
    then obtain i j where i: "i < n" "x = chunk_id (now e (k + i)) i"
      and j: "j < m" "x = chunk_id (now e (k' + j)) j"
      by (auto simp: ids_of_def)
    from i(2) j(2) have "chunk_id (now e (k + i)) i = chunk_id (now e (k' + j)) j"
      by (rule trans [OF sym])
    then have "now e (k + i) = now e (k' + j) \<and> i = j"
      unfolding chunk_id_inj .
    with i(1) j(1) a show False by blast
  qed
qed

lemma backend_add_ids:
  assumes "length ids = length ems" "length ems = length ds" "length ds = length ms"
  shows "map sid (backend_add ids ems ds ms coll) = map sid coll @ ids"
proof -
  have "map sid (map (\<lambda>(i, em, d, m). \<lparr>sid = i, sembedding = em, sdocument = d, smetadata = Some m\<rparr>)
      (zip ids (zip ems (zip ds ms)))) = ids"
    using assms
  proof (induction ids arbitrary: ems ds ms)
    case Nil
    then show ?case by simp
  next
    case (Cons a ids)
    then show ?case by (cases ems; cases ds; cases ms) auto
  qed
  then show ?thesis unfolding backend_add_def by (simp only: map_append)
qed

lemma storeMemories_success:
  assumes "storeMemories e (Some cs) w = (Inr (), w')" and "cs \<noteq> []"
  shows "(\<exists>ems. last (backend_log w') =
            Add (ids_of e (clock_reads w) (length cs)) ems (map narrative cs)
              (map (\<lambda>c. case metadata c of None \<Rightarrow> [] | Some m \<Rightarrow> m) cs)) \<and>
         map sid (memories w') = map sid (memories w) @ ids_of e (clock_reads w) (length cs) \<and>
         clock_reads w' = clock_reads w + length cs"
proof -
  obtain r1 w1 where i: "initializeChroma e w = (r1, w1)"
    by (cases "initializeChroma e w")
  obtain r2 w2 where em: "embeddings_of e cs w1 = (r2, w2)"
    by (cases "embeddings_of e cs w1")
  from assms i have r1: "r1 = Inr ()" by (auto simp: storeMemories_def split: sum.splits)
  from assms i em r1 obtain ems where r2: "r2 = Inr ems"
    by (cases r2) (auto simp: storeMemories_def)
  have l: "length ems = length cs" using em r2 embeddings_of_length by blast
  note f1 = initializeChroma_frame [OF i]
  from embeddings_of_frame [OF em] have f2: "memories w2 = memories w1"
    "clock_reads w2 = clock_reads w1" by simp_all
  have li: "length (ids_of e k (length cs)) = length cs" for k by (simp add: ids_of_def)
  have z: "map sid (backend_add (ids_of e k (length cs)) ems (map narrative cs)
        (map (\<lambda>c. case metadata c of None \<Rightarrow> [] | Some m \<Rightarrow> m) cs) coll) =
      map sid coll @ ids_of e k (length cs)" for k coll
    by (rule backend_add_ids) (simp_all add: li l)
  show ?thesis
    using assms i em r1 r2 f1 f2 l
    by (auto simp: storeMemories_def Let_def collection_request_def backend_request_def z
        split: if_splits option.splits)
qed


section \<open>One chat turn\<close>

lemma reformulateQuery_frame:
  assumes "reformulateQuery e input ctx w = (q, w')"
  shows "session w' = session w"
  using assms
  by (auto simp: reformulateQuery_def chat_create_def session_def split: sum.splits)

lemma searchMemories_frame:
  assumes "searchMemories e q limit w = (found, w')"
  shows "session w' = session w"
proof -
  obtain r1 w1 where i: "initializeChroma e w = (r1, w1)"
    by (cases "initializeChroma e w")
  obtain r2 w2 where g: "generateEmbedding e q w1 = (r2, w2)"
    by (cases "generateEmbedding e q w1")
  note f = initializeChroma_frame(1) [OF i] generateEmbedding_frame(1) [OF g]
  show ?thesis
  proof (cases r1)
    case (Inl err)
    with assms i f show ?thesis by (simp add: searchMemories_def)
  next
    case (Inr u)
    note r1 = this
    show ?thesis
    proof (cases r2)
      case (Inl err)
      with assms i g r1 f show ?thesis by (simp add: searchMemories_def)
    next
      case (Inr qe)
      obtain r3 w3 where c: "collection_request e (Query qe limit) w2 = (r3, w3)"
        by (cases "collection_request e (Query qe limit) w2")
      from collection_request_frame(1) [OF c] assms i g r1 Inr c f show ?thesis
        by (cases r3) (auto simp: searchMemories_def Let_def split: if_splits)
    qed
  qed
qed

lemma handleChat_cases:
  "session (handleChat e input w) = session w \<or>
   (\<exists>reply.
      conversationCache (handleChat e input w) =
        conversationCache w @ [\<lparr>role = User, content = input\<rparr>, \<lparr>role = Assistant, content = reply\<rparr>] \<and>
      currentSummary (handleChat e input w) = currentSummary w \<and>
      (length (conversationCache w) + 2 < CACHE_LIMIT \<or>
       (\<exists>k err. complete e k
          (summarize_request (conversationCache w @
             [\<lparr>role = User, content = input\<rparr>, \<lparr>role = Assistant, content = reply\<rparr>])) = Inl err))) \<or>
   (\<exists>newSummary k reply.
      CACHE_LIMIT \<le> length (conversationCache w) + 2 \<and>
      complete e k
        (summarize_request (conversationCache w @
           [\<lparr>role = User, content = input\<rparr>, \<lparr>role = Assistant, content = reply\<rparr>])) =
        Inr newSummary \<and>
      currentSummary (handleChat e input w) =
        (if currentSummary w \<noteq> [] then currentSummary w @ ''\<newline>\<newline>'' @ newSummary
         else newSummary) \<and>
      conversationCache (handleChat e input w) = [seeded (currentSummary (handleChat e input w))])"
proof -
  obtain q w1 where r: "reformulateQuery e input (conversationCache w) w = (q, w1)"
    by (cases "reformulateQuery e input (conversationCache w) w")
  obtain found w2 where s: "searchMemories e q 3 w1 = (found, w2)"
    by (cases "searchMemories e q 3 w1")
  from reformulateQuery_frame [OF r] searchMemories_frame [OF s]
  have f: "conversationCache w2 = conversationCache w" "currentSummary w2 = currentSummary w"
    by (simp_all add: session_def)
  show ?thesis
    using r s f
    by (auto simp: handleChat_def chat_create_def summarizeConversation_def session_def
        Let_def split: sum.splits)
qed


lemmas chat_eval = handleChat_def reformulateQuery_def chat_create_def searchMemories_def
  summarizeConversation_def store_eval CACHE_LIMIT_def Let_def

lemmas turn_eval = chat_outcome_def pushed_def summarization_fails_def chat_eval trim_def
  is_space_def

lemmas ready_eval = initializeChroma_def backend_request_def collection_request_def
  generateEmbedding_def env_ok_def initial_world_def world_two_def world_ready_def
  backend_count_def backend_get_def

lemma handleChat_outcome:
  "handleChat e input w =
     (case chat_outcome e input w of
        (Inl err, w3) \<Rightarrow> w3
      | (Inr reply, w3) \<Rightarrow>
          if length (conversationCache (pushed input reply w3)) \<ge> CACHE_LIMIT
          then
            (case summarizeConversation e (conversationCache (pushed input reply w3))
                    (pushed input reply w3) of
               (Inl err, w5) \<Rightarrow> w5
             | (Inr newSummary, w5) \<Rightarrow>
                 w5\<lparr>currentSummary :=
                      (if currentSummary w5 \<noteq> []
                       then currentSummary w5 @ ''\<newline>\<newline>'' @ newSummary else newSummary),
                    conversationCache :=
                      [seeded (if currentSummary w5 \<noteq> []
                               then currentSummary w5 @ ''\<newline>\<newline>'' @ newSummary
                               else newSummary)]\<rparr>)
          else pushed input reply w3)"
  by (simp add: handleChat_def chat_outcome_def pushed_def Let_def
      split: prod.splits sum.splits)

lemma chat_outcome_frame:
  assumes "chat_outcome e input w = (res, w3)"
  shows "session w3 = session w"
proof -
  obtain q w1 where r: "reformulateQuery e input (conversationCache w) w = (q, w1)"
    by (cases "reformulateQuery e input (conversationCache w) w")
  obtain found w2 where s: "searchMemories e q 3 w1 = (found, w2)"
    by (cases "searchMemories e q 3 w1")
  from assms r s have "chat_create e (chat_request found (conversationCache w2) input) w2 = (res, w3)"
    by (simp add: chat_outcome_def)
  from chat_create_frame(1) [OF this] reformulateQuery_frame [OF r] searchMemories_frame [OF s]
  show ?thesis by simp
qed

lemma pushed_session:
  "session w3 = session w \<Longrightarrow>
     conversationCache (pushed input reply w3) =
       conversationCache w @ [\<lparr>role = User, content = input\<rparr>, \<lparr>role = Assistant, content = reply\<rparr>] \<and>
     currentSummary (pushed input reply w3) = currentSummary w"
  by (simp add: pushed_def session_def)

lemma handleChat_chat_fails:
  assumes "chat_outcome e input w = (Inl err, w3)"
  shows "session (handleChat e input w) = session w"
  using chat_outcome_frame [OF assms] assms by (simp add: handleChat_outcome)

lemma handleChat_below_limit:
  assumes "chat_outcome e input w = (Inr reply, w3)"
    and "length (conversationCache w) + 2 < CACHE_LIMIT"
  shows "conversationCache (handleChat e input w) =
           conversationCache w @
           [\<lparr>role = User, content = input\<rparr>, \<lparr>role = Assistant, content = reply\<rparr>] \<and>
         currentSummary (handleChat e input w) = currentSummary w"
  using pushed_session [OF chat_outcome_frame [OF assms(1)], of input reply] assms
  by (simp add: handleChat_outcome)

lemma handleChat_rotates:
  assumes "chat_outcome e input w = (Inr reply, w3)"
    and "CACHE_LIMIT \<le> length (conversationCache w) + 2"
    and "summarizeConversation e
           (conversationCache w @
            [\<lparr>role = User, content = input\<rparr>, \<lparr>role = Assistant, content = reply\<rparr>])
           (pushed input reply w3) = (Inr newSummary, w5)"
  shows "currentSummary (handleChat e input w) =
           (if currentSummary w \<noteq> [] then currentSummary w @ ''\<newline>\<newline>'' @ newSummary
            else newSummary) \<and>
         conversationCache (handleChat e input w) =
           [\<lparr>role = User,
             content = ''Previous conversation context: '' @
                       currentSummary (handleChat e input w)\<rparr>] \<and>
         length (currentSummary w) \<le> length (currentSummary (handleChat e input w))"
proof -
  note p = pushed_session [OF chat_outcome_frame [OF assms(1)], of input reply]
  from summarizeConversation_frame(1) [OF assms(3)] p
  have s5: "currentSummary w5 = currentSummary w" by (simp add: session_def)
  from assms p s5 show ?thesis
    by (simp add: handleChat_outcome seeded_def)
qed

lemma handleChat_summary_grows:
  "length (currentSummary w) \<le> length (currentSummary (handleChat e input w))"
proof -
  from handleChat_cases [of e input w] show ?thesis
    by (auto simp: session_def)
qed

lemma handleChat_bound:
  assumes "\<not> summarization_fails e input w" and "length (conversationCache w) \<le> CACHE_LIMIT"
  shows "length (conversationCache (handleChat e input w)) \<le> CACHE_LIMIT"
proof -
  obtain res w3 where c: "chat_outcome e input w = (res, w3)"
    by (cases "chat_outcome e input w")
  show ?thesis
  proof (cases res)
    case (Inl err)
    with c handleChat_chat_fails [of e input w err w3] assms(2) show ?thesis
      by (simp add: session_def)
  next
    case (Inr reply)
    note c' = c [unfolded Inr]
    note p = pushed_session [OF chat_outcome_frame [OF c'], of input reply]
    show ?thesis
    proof (cases "length (conversationCache w) + 2 < CACHE_LIMIT")
      case True
      with handleChat_below_limit [OF c' True] show ?thesis by simp
    next
      case False
      then have ge: "CACHE_LIMIT \<le> length (conversationCache w) + 2" by simp
      obtain r5 w5 where s: "summarizeConversation e
           (conversationCache w @
            [\<lparr>role = User, content = input\<rparr>, \<lparr>role = Assistant, content = reply\<rparr>])
           (pushed input reply w3) = (r5, w5)"
        by (cases "summarizeConversation e
           (conversationCache w @
            [\<lparr>role = User, content = input\<rparr>, \<lparr>role = Assistant, content = reply\<rparr>])
           (pushed input reply w3)")
      from assms(1) c' p ge s obtain newSummary where "r5 = Inr newSummary"
        by (cases r5) (auto simp: summarization_fails_def)
      with handleChat_rotates [OF c' ge] s show ?thesis by (simp add: CACHE_LIMIT_def)
    qed
  qed
qed

lemma chat_turns_summary_grows:
  "length (currentSummary w) \<le> length (currentSummary (chat_turns e inputs w))"
proof (induction inputs arbitrary: w)
  case Nil
  show ?case by simp
next
  case (Cons input inputs)
  from handleChat_summary_grows [of w e input] Cons.IH [of "handleChat e input w"]
  show ?case by simp
qed

lemma chat_turns_bounded:
  "summarizations_succeed e inputs w \<Longrightarrow> length (conversationCache w) \<le> CACHE_LIMIT \<Longrightarrow>
     length (conversationCache (chat_turns e inputs w)) \<le> CACHE_LIMIT"
proof (induction inputs arbitrary: w)
  case Nil
  then show ?case by simp
next
  case (Cons input inputs)
  from Cons.prems have "\<not> summarization_fails e input w"
    and r: "summarizations_succeed e inputs (handleChat e input w)" by simp_all
  from handleChat_bound [OF this(1) Cons.prems(2)] Cons.IH [OF r] show ?case by simp
qed

section \<open>Failures that are thrown again\<close>

lemma clearAllMemories_propagates:
  assumes "initializeChroma e w = (Inl err, w1) \<or>
           initializeChroma e w = (Inr (), w1) \<and>
           (collection_request e Count w1 = (Some err, w2) \<or>
            collection_request e Count w1 = (None, w2) \<and> backend_count (memories w2) \<noteq> 0 \<and>
            (collection_request e (Get None) w2 = (Some err, w3) \<or>
             collection_request e (Get None) w2 = (None, w3) \<and>
             collection_request e (Delete (map sid (backend_get None (memories w3)))) w3 =
               (Some err, w4)))"
  shows "fst (clearAllMemories e w) = Inl err"
proof -
  have m: "memories w3 = memories w2" if "collection_request e (Get None) w2 = (None, w3)"
    using collection_request_frame(2) [OF that] .
  from assms m show ?thesis
    by (auto simp: clearAllMemories_def Let_def backend_count_def backend_get_def)
qed

lemma storeMemories_propagates:
  assumes "initializeChroma e w = (Inl err, w1) \<or>
           initializeChroma e w = (Inr (), w1) \<and> chunks = Some cs \<and> cs \<noteq> [] \<and>
           (embeddings_of e cs w1 = (Inl err, w2) \<or>
            embeddings_of e cs w1 = (Inr embeddings, w2) \<and>
            collection_request e
              (Add (ids_of e (clock_reads w2) (length cs)) embeddings (map narrative cs)
                 (map (\<lambda>c. case metadata c of None \<Rightarrow> [] | Some m \<Rightarrow> m) cs))
              (w2\<lparr>clock_reads := clock_reads w2 + length cs\<rparr>) = (Some err, w4))"
  shows "fst (storeMemories e chunks w) = Inl err"
  using assms by (auto simp: storeMemories_def Let_def)

section \<open>The fact extraction pipeline\<close>

text \<open>
  Claim C9. \<^verbatim>\<open>processConversations\<close> applied to an empty or a missing list of summaries
  returns the empty list at once: no error, and no request to the Generation Service
  (the state, with the log of the requests sent, is the one it was called in).
\<close>

theorem processConversations_empty:
  "processConversations e None w = (Inr [], w) \<and>
   processConversations e (Some []) w = (Inr [], w) \<and>
   gen_log (snd (processConversations e (Some []) w)) = gen_log w"
  by (simp add: processConversations_def)

text \<open>
  Claim C2. Every chunk that \<^verbatim>\<open>processConversations\<close> returns has a narrative of 10 to 200
  words, and the narratives returned are exactly the fragments of the generated text,
  split at the bar and trimmed, that are not empty and have 10 to 200 words: the other
  fragments do not appear.
\<close>

theorem processConversations_word_count:
  assumes "processConversations e summaries w = (Inr chunks, w')"
  shows "(\<forall>c\<in>set chunks.
            narrative c \<noteq> [] \<and> 10 \<le> word_count (narrative c) \<and> word_count (narrative c) \<le> 200) \<and>
         (\<forall>ss reply.
            summaries = Some ss \<and> ss \<noteq> [] \<and>
            complete e (length (gen_log w)) (extraction_request ss) = Inr reply \<longrightarrow>
            map narrative chunks =
              filter (\<lambda>t. t \<noteq> [] \<and> 10 \<le> word_count t \<and> word_count t \<le> 200)
                (map trim (split_on (CHR ''|'') (trim reply))))"
proof -
  have n: "map narrative (map (\<lambda>(i, txt). chunk_of (f i) txt) (enumerate 0 xs)) = xs"
    for f :: "nat \<Rightarrow> string" and xs :: "string list"
  proof -
    have h: "map narrative (map (\<lambda>(i, txt). chunk_of (f i) txt) ps) = map snd ps"
      for ps :: "(nat \<times> string) list"
      by (induction ps) (auto simp: chunk_of_def)
    show ?thesis unfolding h by simp
  qed
  from processConversations_chunks [OF assms] show ?thesis
  proof
    assume "chunks = [] \<and> (summaries = None \<or> summaries = Some [])"
    then show ?thesis by auto
  next
    assume "\<exists>ss reply. summaries = Some ss \<and> ss \<noteq> [] \<and>
       complete e (length (gen_log w)) (extraction_request ss) = Inr reply \<and>
       chunks = map (\<lambda>(i, txt). chunk_of (toISOString e (now e (clock_reads w + i))) txt)
                  (enumerate 0 (chunkTexts (trim reply)))"
    then obtain ss reply where s: "summaries = Some ss" "ss \<noteq> []"
      and r: "complete e (length (gen_log w)) (extraction_request ss) = Inr reply"
      and c: "chunks = map (\<lambda>(i, txt). chunk_of (toISOString e (now e (clock_reads w + i))) txt)
                  (enumerate 0 (chunkTexts (trim reply)))"
      by blast
    have m: "map narrative chunks = chunkTexts (trim reply)"
      unfolding c by (rule n)
    have "set (map narrative chunks) = narrative ` set chunks" by simp
    then have "\<forall>c\<in>set chunks. narrative c \<in> set (chunkTexts (trim reply))"
      unfolding m by blast
    then have 1: "\<forall>c\<in>set chunks.
            narrative c \<noteq> [] \<and> 10 \<le> word_count (narrative c) \<and> word_count (narrative c) \<le> 200"
      unfolding chunkTexts_words by simp
    from m s r have 2: "\<forall>ss reply.
            summaries = Some ss \<and> ss \<noteq> [] \<and>
            complete e (length (gen_log w)) (extraction_request ss) = Inr reply \<longrightarrow>
            map narrative chunks =
              filter (\<lambda>t. t \<noteq> [] \<and> 10 \<le> word_count t \<and> word_count t \<le> 200)
                (map trim (split_on (CHR ''|'') (trim reply)))"
      by (simp add: chunkTexts_words)
    from 1 2 show ?thesis ..
  qed
qed

theorem processConversations_word_count_witness:
  "(\<exists>w'. processConversations env_ok (Some [''User lives in Tokyo.'']) initial_world =
      (Inr [chunk_of ''5'' ''a b c d e f g h i j''], w')) \<and>
   complete env_ok (length (gen_log initial_world))
     (extraction_request [''User lives in Tokyo.'']) = Inr ''a b c d e f g h i j'' \<and>
   10 \<le> word_count (narrative (chunk_of ''5'' ''a b c d e f g h i j'')) \<and>
   word_count (narrative (chunk_of ''5'' ''a b c d e f g h i j'')) \<le> 200 \<and>
   map narrative [chunk_of ''5'' ''a b c d e f g h i j''] =
     filter (\<lambda>t. t \<noteq> [] \<and> 10 \<le> word_count t \<and> word_count t \<le> 200)
       (map trim (split_on (CHR ''|'') (trim ''a b c d e f g h i j'')))"
proof -
  let ?c = "chunk_of ''5'' ''a b c d e f g h i j''"
  have h: "processConversations env_ok (Some [''User lives in Tokyo.'']) initial_world =
      (Inr [?c], snd (processConversations env_ok (Some [''User lives in Tokyo.'']) initial_world))"
    by (simp add: processConversations_def chat_create_def env_ok_def initial_world_def
        chunkTexts_example show_nat.simps digit_char_eval enumerate_eq_zip)
  have r: "complete env_ok (length (gen_log initial_world))
     (extraction_request [''User lives in Tokyo.'']) = Inr ''a b c d e f g h i j''"
    by (simp add: env_ok_def)
  note t = processConversations_word_count [OF h]
  from t have 1: "10 \<le> word_count (narrative ?c) \<and> word_count (narrative ?c) \<le> 200" by simp
  from t r have 2: "map narrative [?c] =
     filter (\<lambda>t. t \<noteq> [] \<and> 10 \<le> word_count t \<and> word_count t \<le> 200)
       (map trim (split_on (CHR ''|'') (trim ''a b c d e f g h i j'')))"
    by blast
  from h r 1 2 show ?thesis by blast
qed

text \<open>
  Claim C8, as the code has it. The \<open>i\<close>-th chunk carries the time stamp of its own
  reading of the clock, the source tag \<^verbatim>\<open>conversation_summary\<close>, the length of its
  narrative and, when the narrative has a word of more than five characters, the first
  three such words, lower-cased and joined by a comma and a space; a word that occurs
  twice is kept twice.
\<close>

theorem processConversations_metadata:
  assumes "processConversations e summaries w = (Inr chunks, w')" and "i < length chunks"
  shows "metadata (chunks ! i) =
     Some ([(''timestamp'', Str (toISOString e (now e (clock_reads w + i)))),
            (''source'', Str ''conversation_summary''),
            (''chunk_length'', Num (length (narrative (chunks ! i))))] @
           (let long = filter (\<lambda>word. 5 < length word)
                         (map toLowerCase (words (narrative (chunks ! i))))
            in if long = [] then [] else [(''topics'', Str (join '', '' (take 3 long)))]))"
proof -
  from processConversations_chunks [OF assms(1)] assms(2)
  obtain ss reply where
    c: "chunks = map (\<lambda>(i, txt). chunk_of (toISOString e (now e (clock_reads w + i))) txt)
                  (enumerate 0 (chunkTexts (trim reply)))"
    by auto
  let ?texts = "chunkTexts (trim reply)"
  from c assms(2) have i: "i < length ?texts" by simp
  then have ci: "chunks ! i = chunk_of (toISOString e (now e (clock_reads w + i))) (?texts ! i)"
    unfolding c by (simp add: nth_enumerate_eq)
  from i have "?texts ! i \<in> set ?texts" by simp
  then have "trimmed (?texts ! i)" by (rule chunkTexts_trimmed)
  note t = topics_words [OF this]
  define long where
    "long = filter (\<lambda>word. 5 < length word) (map toLowerCase (words (?texts ! i)))"
  have n: "narrative (chunks ! i) = ?texts ! i" unfolding ci by (simp add: chunk_of_def)
  have "metadata (chunks ! i) =
     Some ([(''timestamp'', Str (toISOString e (now e (clock_reads w + i)))),
            (''source'', Str ''conversation_summary''),
            (''chunk_length'', Num (length (?texts ! i)))] @
           (if long = [] then [] else [(''topics'', Str (join '', '' (take 3 long)))]))"
    unfolding ci chunk_of_def t long_def [symmetric] by (cases long) simp_all
  then show ?thesis unfolding n Let_def long_def .
qed

theorem processConversations_metadata_witness:
  "(\<exists>w'. processConversations env_ok (Some [''User lives in Tokyo.'']) initial_world =
      (Inr [chunk_of ''5'' ''a b c d e f g h i j''], w')) \<and>
   metadata (chunk_of ''5'' ''a b c d e f g h i j'') =
     Some [(''timestamp'', Str ''5''), (''source'', Str ''conversation_summary''),
           (''chunk_length'', Num 19)]"
proof -
  let ?c = "chunk_of ''5'' ''a b c d e f g h i j''"
  have h: "processConversations env_ok (Some [''User lives in Tokyo.'']) initial_world =
      (Inr [?c], snd (processConversations env_ok (Some [''User lives in Tokyo.'']) initial_world))"
    by (simp add: processConversations_def chat_create_def env_ok_def initial_world_def
        chunkTexts_example show_nat.simps digit_char_eval enumerate_eq_zip)
  have n: "narrative ?c = ''a b c d e f g h i j''" by (simp add: chunk_of_def)
  from processConversations_metadata [OF h, of 0] have
    "metadata ?c = Some [(''timestamp'', Str ''5''), (''source'', Str ''conversation_summary''),
           (''chunk_length'', Num 19)]"
    by (simp add: n words_example env_ok_def initial_world_def show_nat.simps digit_char_eval
        toLowerCase_def)
  with h show ?thesis by blast
qed

text \<open>
  Claim C8 as stated asks for the first three distinct words. For a narrative that repeats
  a long word the code records the word three times, where the distinct words are one.
\<close>

theorem topics_not_distinct_counterexample:
  "fst (processConversations env_banana (Some [''User likes fruit.'']) initial_world) =
     Inr [\<lparr>narrative = ''banana banana banana a b c d e f g'',
           metadata = Some [(''timestamp'', Str ''5''), (''source'', Str ''conversation_summary''),
                            (''chunk_length'', Num 34),
                            (''topics'', Str ''banana, banana, banana'')]\<rparr>] \<and>
   join '', '' (spec_topics ''banana banana banana a b c d e f g'') = ''banana''"
proof -
  have t: "chunkTexts (trim ''banana banana banana a b c d e f g'') =
      [''banana banana banana a b c d e f g'']"
    by (simp add: chunkTexts_def trim_def split_ws.simps is_space_def)
  have l: "toLowerCase ''banana banana banana a b c d e f g'' = ''banana banana banana a b c d e f g''"
    by (simp add: toLowerCase_def lower_char_def)
  have p: "topics ''banana banana banana a b c d e f g'' = [''banana'', ''banana'', ''banana'']"
    unfolding topics_def l by (simp add: split_ws.simps is_space_def)
  have w: "words ''banana banana banana a b c d e f g'' =
      [''banana'', ''banana'', ''banana'', ''a'', ''b'', ''c'', ''d'', ''e'', ''f'', ''g'']"
    by (simp add: words_def is_space_def)
  have lb: "toLowerCase ''banana'' = ''banana''" by (simp add: toLowerCase_def lower_char_def)
  have 1: "fst (processConversations env_banana (Some [''User likes fruit.'']) initial_world) =
     Inr [\<lparr>narrative = ''banana banana banana a b c d e f g'',
           metadata = Some [(''timestamp'', Str ''5''), (''source'', Str ''conversation_summary''),
                            (''chunk_length'', Num 34),
                            (''topics'', Str ''banana, banana, banana'')]\<rparr>]"
    by (simp add: processConversations_def chat_create_def env_banana_def env_ok_def
        initial_world_def t p chunk_of_def show_nat.simps digit_char_eval enumerate_eq_zip)
  have 2: "join '', '' (spec_topics ''banana banana banana a b c d e f g'') = ''banana''"
    unfolding spec_topics_def w by (simp add: lb toLowerCase_def lower_char_def)
  from 1 2 show ?thesis ..
qed

section \<open>The vector memory store\<close>

text \<open>
  Claim C4. When the initialization, the embedding of the query or the query to the
  backend fails, \<^verbatim>\<open>searchMemories\<close> returns the empty array; and the chat turn in which
  that happens still sends its chat request, without memories.
\<close>

theorem searchMemories_failure_empty:
  assumes "initializeChroma e w = (Inl err, w1) \<or>
           initializeChroma e w = (Inr (), w1) \<and>
           (generateEmbedding e query w1 = (Inl err, w2) \<or>
            generateEmbedding e query w1 = (Inr queryEmbedding, w2) \<and>
            collection_request e (Query queryEmbedding limit) w2 = (Some err, w3))"
  shows "fst (searchMemories e query limit w) = [] \<and>
         (\<forall>input w0.
            limit = 3 \<and> reformulateQuery e input (conversationCache w0) w0 = (query, w) \<longrightarrow>
            chat_request [] (conversationCache w0) input \<in> set (gen_log (handleChat e input w0)))"
proof -
  from assms have 1: "fst (searchMemories e query limit w) = []"
    by (auto simp: searchMemories_def)
  have 2: "chat_request [] (conversationCache w0) input \<in> set (gen_log (handleChat e input w0))"
    if "limit = 3 \<and> reformulateQuery e input (conversationCache w0) w0 = (query, w)"
    for input w0
  proof -
    from 1 that have "searchMemories e query 3 w = ([], snd (searchMemories e query 3 w))"
      by (metis prod.collapse)
    with that show ?thesis by (intro handleChat_sends_chat_request) auto
  qed
  from 1 2 show ?thesis by blast
qed

theorem searchMemories_failure_empty_witness:
  "(let e = env_ok\<lparr>embed := \<lambda>k t. Inl down\<rparr>;
        w = snd (reformulateQuery e ''hello'' [] initial_world)
    in reformulateQuery e ''hello'' [] initial_world = (''a b c d e f g h i j'', w) \<and>
       initializeChroma e w = (Inr (), snd (initializeChroma e w)) \<and>
       fst (generateEmbedding e ''a b c d e f g h i j'' (snd (initializeChroma e w))) = Inl down \<and>
       fst (searchMemories e ''a b c d e f g h i j'' 3 w) = [] \<and>
       chat_request [] [] ''hello'' \<in> set (gen_log (handleChat e ''hello'' initial_world)))"
proof -
  let ?e = "env_ok\<lparr>embed := \<lambda>k t. Inl down\<rparr>"
  let ?q = "''a b c d e f g h i j''"
  let ?w = "snd (reformulateQuery ?e ''hello'' [] initial_world)"
  have c: "conversationCache initial_world = []" by (simp add: initial_world_def)
  have h0: "reformulateQuery ?e ''hello'' (conversationCache initial_world) initial_world = (?q, ?w)"
    unfolding c by (simp add: reformulateQuery_def chat_create_def env_ok_def trim_def is_space_def)
  have w: "?w = initial_world\<lparr>gen_log := [reformulate_request ''hello'' []]\<rparr>"
    by (simp add: reformulateQuery_def chat_create_def env_ok_def initial_world_def)
  have h1: "initializeChroma ?e ?w = (Inr (), snd (initializeChroma ?e ?w))"
    unfolding w by (simp add: store_eval)
  have h2: "generateEmbedding ?e ?q (snd (initializeChroma ?e ?w)) =
      (Inl down, snd (generateEmbedding ?e ?q (snd (initializeChroma ?e ?w))))"
    by (simp add: generateEmbedding_def env_ok_def)
  have t: "fst (searchMemories ?e ?q 3 ?w) = [] \<and>
         (\<forall>input w0.
            (3::nat) = 3 \<and> reformulateQuery ?e input (conversationCache w0) w0 = (?q, ?w) \<longrightarrow>
            chat_request [] (conversationCache w0) input \<in> set (gen_log (handleChat ?e input w0)))"
    by (rule searchMemories_failure_empty) (rule disjI2, rule conjI, rule h1, rule disjI1, rule h2)
  from t have 1: "fst (searchMemories ?e ?q 3 ?w) = []" by blast
  from t h0 have "chat_request [] (conversationCache initial_world) ''hello''
      \<in> set (gen_log (handleChat ?e ''hello'' initial_world))" by blast
  then have 2: "chat_request [] [] ''hello'' \<in> set (gen_log (handleChat ?e ''hello'' initial_world))"
    unfolding c .
  from h2 have h2': "fst (generateEmbedding ?e ?q (snd (initializeChroma ?e ?w))) = Inl down"
    by (metis fst_conv)
  from h0 have h0': "reformulateQuery ?e ''hello'' [] initial_world = (?q, ?w)" unfolding c .
  show ?thesis unfolding Let_def using h0' h1 h2' 1 2 by blast
qed

text \<open>
  Claim C10. When the initialization, the count or the read of the records fails during
  the enumeration, \<^verbatim>\<open>getAllMemories\<close> returns the empty array, which is also what it
  returns for an empty store, so that the caller cannot tell the two apart. The failures
  of \<^verbatim>\<open>clearAllMemories\<close> (initialization, count, read of the identifiers, delete) and of
  \<^verbatim>\<open>storeMemories\<close> (initialization, an embedding, the add) are thrown to the caller.
\<close>

theorem getAllMemories_swallows_failure:
  "(\<forall>err w1 w2 w3.
      initializeChroma e w = (Inl err, w1) \<or>
      initializeChroma e w = (Inr (), w1) \<and>
      (collection_request e Count w1 = (Some err, w2) \<or>
       collection_request e Count w1 = (None, w2) \<and> backend_count (memories w2) \<noteq> 0 \<and>
       collection_request e (Get (Some (backend_count (memories w2)))) w2 = (Some err, w3)) \<longrightarrow>
      fst (getAllMemories e w) = [] \<and>
      (\<forall>e' w0. memories w0 = [] \<longrightarrow> fst (getAllMemories e' w0) = fst (getAllMemories e w))) \<and>
   (\<forall>err w1 w2 w3 w4.
      initializeChroma e w = (Inl err, w1) \<or>
      initializeChroma e w = (Inr (), w1) \<and>
      (collection_request e Count w1 = (Some err, w2) \<or>
       collection_request e Count w1 = (None, w2) \<and> backend_count (memories w2) \<noteq> 0 \<and>
       (collection_request e (Get None) w2 = (Some err, w3) \<or>
        collection_request e (Get None) w2 = (None, w3) \<and>
        collection_request e (Delete (map sid (backend_get None (memories w3)))) w3 =
          (Some err, w4))) \<longrightarrow>
      fst (clearAllMemories e w) = Inl err) \<and>
   (\<forall>err w1 cs w2 embeddings w4.
      initializeChroma e w = (Inl err, w1) \<or>
      initializeChroma e w = (Inr (), w1) \<and> chunks = Some cs \<and> cs \<noteq> [] \<and>
      (embeddings_of e cs w1 = (Inl err, w2) \<or>
       embeddings_of e cs w1 = (Inr embeddings, w2) \<and>
       collection_request e
         (Add (ids_of e (clock_reads w2) (length cs)) embeddings (map narrative cs)
            (map (\<lambda>c. case metadata c of None \<Rightarrow> [] | Some m \<Rightarrow> m) cs))
         (w2\<lparr>clock_reads := clock_reads w2 + length cs\<rparr>) = (Some err, w4)) \<longrightarrow>
      fst (storeMemories e chunks w) = Inl err)"
proof (intro conjI allI impI)
  fix err w1 w2 w3
  assume "initializeChroma e w = (Inl err, w1) \<or>
      initializeChroma e w = (Inr (), w1) \<and>
      (collection_request e Count w1 = (Some err, w2) \<or>
       collection_request e Count w1 = (None, w2) \<and> backend_count (memories w2) \<noteq> 0 \<and>
       collection_request e (Get (Some (backend_count (memories w2)))) w2 = (Some err, w3))"
  then show g: "fst (getAllMemories e w) = []" by (auto simp: getAllMemories_def)
  fix e' and w0 :: world
  assume "memories w0 = []"
  with g show "fst (getAllMemories e' w0) = fst (getAllMemories e w)"
    by (simp add: getAllMemories_empty_store)
next
  fix err w1 w2 w3 w4
  assume "initializeChroma e w = (Inl err, w1) \<or>
      initializeChroma e w = (Inr (), w1) \<and>
      (collection_request e Count w1 = (Some err, w2) \<or>
       collection_request e Count w1 = (None, w2) \<and> backend_count (memories w2) \<noteq> 0 \<and>
       (collection_request e (Get None) w2 = (Some err, w3) \<or>
        collection_request e (Get None) w2 = (None, w3) \<and>
        collection_request e (Delete (map sid (backend_get None (memories w3)))) w3 =
          (Some err, w4)))"
  then show "fst (clearAllMemories e w) = Inl err" by (rule clearAllMemories_propagates)
next
  fix err w1 cs w2 embeddings w4
  assume "initializeChroma e w = (Inl err, w1) \<or>
      initializeChroma e w = (Inr (), w1) \<and> chunks = Some cs \<and> cs \<noteq> [] \<and>
      (embeddings_of e cs w1 = (Inl err, w2) \<or>
       embeddings_of e cs w1 = (Inr embeddings, w2) \<and>
       collection_request e
         (Add (ids_of e (clock_reads w2) (length cs)) embeddings (map narrative cs)
            (map (\<lambda>c. case metadata c of None \<Rightarrow> [] | Some m \<Rightarrow> m) cs))
         (w2\<lparr>clock_reads := clock_reads w2 + length cs\<rparr>) = (Some err, w4))"
  then show "fst (storeMemories e chunks w) = Inl err" by (rule storeMemories_propagates)
qed

theorem getAllMemories_swallows_failure_witness:
  "initializeChroma env_count_down world_ready = (Inr (), world_ready) \<and>
   fst (collection_request env_count_down Count world_ready) = Some down \<and>
   fst (getAllMemories env_count_down world_ready) = [] \<and>
   fst (getAllMemories env_ok initial_world) = fst (getAllMemories env_count_down world_ready) \<and>
   fst (clearAllMemories env_count_down world_ready) = Inl down \<and>
   fst (collection_request env_delete_down (Delete [''chunk_5_0'', ''chunk_5_1''])
          (snd (collection_request env_delete_down (Get None)
                  (snd (collection_request env_delete_down Count world_ready))))) = Some down \<and>
   fst (clearAllMemories env_delete_down world_ready) = Inl down \<and>
   fst (embeddings_of (env_ok\<lparr>embed := \<lambda>k t. Inl down\<rparr>) [chunk_tokyo] world_ready) = Inl down \<and>
   fst (storeMemories (env_ok\<lparr>embed := \<lambda>k t. Inl down\<rparr>) (Some [chunk_tokyo]) world_ready) =
     Inl down \<and>
   fst (collection_request env_add_down
          (Add [''chunk_5_0''] [[1]] [''User lives in Tokyo.''] [[]])
          (snd (embeddings_of env_add_down [chunk_tokyo] world_ready)
             \<lparr>clock_reads := 1\<rparr>)) = Some down \<and>
   fst (storeMemories env_add_down (Some [chunk_tokyo]) world_ready) = Inl down \<and>
   fst (initializeChroma (env_ok\<lparr>backend := \<lambda>k c. Some down\<rparr>) world_two) = Inl down \<and>
   fst (getAllMemories (env_ok\<lparr>backend := \<lambda>k c. Some down\<rparr>) world_two) = [] \<and>
   fst (clearAllMemories (env_ok\<lparr>backend := \<lambda>k c. Some down\<rparr>) world_two) = Inl down \<and>
   fst (storeMemories (env_ok\<lparr>backend := \<lambda>k c. Some down\<rparr>) (Some []) world_two) = Inl down"
proof -
  let ?b = "env_ok\<lparr>backend := \<lambda>k c. Some down\<rparr>"
  let ?m = "env_ok\<lparr>embed := \<lambda>k t. Inl down\<rparr>"
  have i: "initializeChroma e world_ready = (Inr (), world_ready)" for e
    by (simp add: initializeChroma_def world_ready_def)
  have c1: "collection_request env_count_down Count world_ready =
      (Some down, snd (collection_request env_count_down Count world_ready))"
    by (simp add: ready_eval env_count_down_def)
  note tc = getAllMemories_swallows_failure [of env_count_down world_ready]
  note tc1 = tc [THEN conjunct1, rule_format, OF disjI2, OF conjI, OF i disjI1, OF c1]
  from tc1 have c2: "fst (getAllMemories env_count_down world_ready) = []" by (rule conjunct1)
  have m0: "memories initial_world = []" by (simp add: initial_world_def)
  have c3: "fst (getAllMemories env_ok initial_world) =
      fst (getAllMemories env_count_down world_ready)"
    by (rule tc1 [THEN conjunct2, rule_format, OF m0])
  have c4: "fst (clearAllMemories env_count_down world_ready) = Inl down"
    by (rule tc [THEN conjunct2, THEN conjunct1, rule_format, OF disjI2, OF conjI,
          OF i disjI1, OF c1])
  let ?d2 = "snd (collection_request env_delete_down Count world_ready)"
  let ?d3 = "snd (collection_request env_delete_down (Get None) ?d2)"
  have d1: "collection_request env_delete_down Count world_ready = (None, ?d2)"
    by (simp add: ready_eval env_delete_down_def)
  have d2: "backend_count (memories ?d2) \<noteq> 0"
    by (simp add: ready_eval env_delete_down_def)
  have d3: "collection_request env_delete_down (Get None) ?d2 = (None, ?d3)"
    by (simp add: ready_eval env_delete_down_def)
  have d4: "map sid (backend_get None (memories ?d3)) = [''chunk_5_0'', ''chunk_5_1'']"
    by (simp add: ready_eval env_delete_down_def)
  have d5: "collection_request env_delete_down (Delete [''chunk_5_0'', ''chunk_5_1'']) ?d3 =
      (Some down, snd (collection_request env_delete_down
         (Delete [''chunk_5_0'', ''chunk_5_1'']) ?d3))"
    by (simp add: ready_eval env_delete_down_def)
  have d6: "fst (clearAllMemories env_delete_down world_ready) = Inl down"
    by (rule getAllMemories_swallows_failure [of env_delete_down world_ready,
          THEN conjunct2, THEN conjunct1, rule_format, OF disjI2, OF conjI, OF i disjI2,
          OF conjI, OF d1 conjI, OF d2 disjI2, OF conjI, OF d3 d5 [folded d4]])
  have e0: "[chunk_tokyo] \<noteq> []" by simp
  have e1: "embeddings_of ?m [chunk_tokyo] world_ready =
      (Inl down, snd (embeddings_of ?m [chunk_tokyo] world_ready))"
    by (simp add: ready_eval)
  have e2: "fst (storeMemories ?m (Some [chunk_tokyo]) world_ready) = Inl down"
    by (rule getAllMemories_swallows_failure [of ?m world_ready "Some [chunk_tokyo]",
          THEN conjunct2, THEN conjunct2, rule_format, OF disjI2, OF conjI, OF i conjI,
          OF refl conjI, OF e0 disjI1, OF e1])
  let ?a2 = "snd (embeddings_of env_add_down [chunk_tokyo] world_ready)"
  have a1: "embeddings_of env_add_down [chunk_tokyo] world_ready = (Inr [[1]], ?a2)"
    by (simp add: ready_eval env_add_down_def)
  have a2: "clock_reads ?a2 = 0" by (simp add: ready_eval env_add_down_def)
  have a3: "ids_of env_add_down 0 (length [chunk_tokyo]) = [''chunk_5_0'']"
    by (simp add: ids_of_def chunk_id_def env_add_down_def env_ok_def show_nat.simps
        digit_char_eval)
  have a4: "map narrative [chunk_tokyo] = [''User lives in Tokyo.'']"
    "map (\<lambda>c. case metadata c of None \<Rightarrow> [] | Some m \<Rightarrow> m) [chunk_tokyo] = [[]]"
    by (simp_all add: chunk_tokyo_def)
  have a5: "collection_request env_add_down
        (Add [''chunk_5_0''] [[1]] [''User lives in Tokyo.''] [[]]) (?a2\<lparr>clock_reads := 1\<rparr>) =
      (Some down, snd (collection_request env_add_down
        (Add [''chunk_5_0''] [[1]] [''User lives in Tokyo.''] [[]]) (?a2\<lparr>clock_reads := 1\<rparr>)))"
    by (simp add: ready_eval env_add_down_def)
  have a6: "collection_request env_add_down
        (Add (ids_of env_add_down (clock_reads ?a2) (length [chunk_tokyo])) [[1]]
           (map narrative [chunk_tokyo])
           (map (\<lambda>c. case metadata c of None \<Rightarrow> [] | Some m \<Rightarrow> m) [chunk_tokyo]))
        (?a2\<lparr>clock_reads := clock_reads ?a2 + length [chunk_tokyo]\<rparr>) =
      (Some down, snd (collection_request env_add_down
        (Add [''chunk_5_0''] [[1]] [''User lives in Tokyo.''] [[]]) (?a2\<lparr>clock_reads := 1\<rparr>)))"
    unfolding a2 a3 a4 using a5 by simp
  have a7: "fst (storeMemories env_add_down (Some [chunk_tokyo]) world_ready) = Inl down"
    by (rule getAllMemories_swallows_failure [of env_add_down world_ready "Some [chunk_tokyo]",
          THEN conjunct2, THEN conjunct2, rule_format, OF disjI2, OF conjI,
          OF i conjI, OF refl conjI, OF e0 disjI2, OF conjI, OF a1 a6])
  have b1: "initializeChroma ?b world_two = (Inl down, snd (initializeChroma ?b world_two))"
    by (simp add: store_eval world_two_def)
  note tb = getAllMemories_swallows_failure [of ?b world_two "Some []"]
  have b2: "fst (getAllMemories ?b world_two) = []"
    by (rule tb [THEN conjunct1, rule_format, OF disjI1, OF b1, THEN conjunct1])
  have b3: "fst (clearAllMemories ?b world_two) = Inl down"
    by (rule tb [THEN conjunct2, THEN conjunct1, rule_format, OF disjI1, OF b1])
  have b4: "fst (storeMemories ?b (Some []) world_two) = Inl down"
    by (rule tb [THEN conjunct2, THEN conjunct2, rule_format, OF disjI1, OF b1])
  have c1': "fst (collection_request env_count_down Count world_ready) = Some down"
    by (subst c1) simp
  have d5': "fst (collection_request env_delete_down
      (Delete [''chunk_5_0'', ''chunk_5_1'']) ?d3) = Some down" by (subst d5) simp
  have e1': "fst (embeddings_of ?m [chunk_tokyo] world_ready) = Inl down"
    by (subst e1) simp
  have a5': "fst (collection_request env_add_down
        (Add [''chunk_5_0''] [[1]] [''User lives in Tokyo.''] [[]]) (?a2\<lparr>clock_reads := 1\<rparr>)) =
      Some down" by (subst a5) simp
  have b1': "fst (initializeChroma ?b world_two) = Inl down" by (subst b1) simp
  show ?thesis
    by (intro conjI i c1' c2 c3 c4 d5' d6 e1' e2 a5' a7 b1' b2 b3 b4)
qed

text \<open>
  Claim C5. A call of \<^verbatim>\<open>clearAllMemories\<close> that returns gives the number of memories that
  were stored, all of which it has deleted (0 for an empty store); a call that follows it
  and returns gives 0; and \<^verbatim>\<open>getAllMemories\<close> then returns the empty array.
\<close>

theorem clearAllMemories_idempotent:
  assumes "clearAllMemories e w = (Inr n, w1)" and "clearAllMemories e w1 = (Inr m, w2)"
  shows "n = length (memories w) \<and> memories w1 = [] \<and> m = 0 \<and> memories w2 = [] \<and>
         fst (getAllMemories e w1) = [] \<and> fst (getAllMemories e w2) = []"
  using clearAllMemories_success [OF assms(1)] clearAllMemories_success [OF assms(2)]
  by (simp add: getAllMemories_empty_store)

theorem clearAllMemories_idempotent_witness:
  "clearAllMemories env_ok world_two = (Inr 2, snd (clearAllMemories env_ok world_two)) \<and>
   clearAllMemories env_ok (snd (clearAllMemories env_ok world_two)) =
     (Inr 0, snd (clearAllMemories env_ok (snd (clearAllMemories env_ok world_two)))) \<and>
   length (memories world_two) = 2 \<and>
   fst (getAllMemories env_ok
     (snd (clearAllMemories env_ok (snd (clearAllMemories env_ok world_two))))) = []"
proof -
  let ?w1 = "snd (clearAllMemories env_ok world_two)"
  let ?w2 = "snd (clearAllMemories env_ok ?w1)"
  have w1: "?w1 = initial_world\<lparr>client := True, collection := True,
      backend_log := [GetOrCreateCollection, Count, Get None, Delete [''chunk_5_0'', ''chunk_5_1'']]\<rparr>"
    by (simp add: clearAllMemories_def store_eval world_two_def backend_count_def backend_get_def
        backend_delete_def Let_def)
  have h1: "clearAllMemories env_ok world_two = (Inr 2, ?w1)"
    by (simp add: clearAllMemories_def store_eval world_two_def backend_count_def backend_get_def
        backend_delete_def Let_def)
  have h2: "clearAllMemories env_ok ?w1 = (Inr 0, ?w2)"
    unfolding w1
    by (simp add: clearAllMemories_def store_eval backend_count_def Let_def)
  from clearAllMemories_idempotent [OF h1 h2]
  have "length (memories world_two) = 2 \<and> fst (getAllMemories env_ok ?w2) = []"
    by (metis (no_types))
  with h1 h2 show ?thesis by blast
qed

text \<open>
  Claim C7, as the code has it. A call of \<^verbatim>\<open>storeMemories\<close> that succeeds on a batch
  writes the identifiers \<^verbatim>\<open>chunk_<clock>_<index>\<close> of the batch, which are pairwise
  distinct. They are disjoint from the identifiers of a batch of \<open>m\<close> chunks stamped from
  the \<open>k\<close>-th reading of the clock exactly when the two batches read different clock
  values at every index they share.
\<close>

theorem storeMemories_identifiers:
  assumes "storeMemories e (Some cs) w = (Inr (), w')" and "cs \<noteq> []"
  shows "(\<exists>ems. last (backend_log w') =
            Add (ids_of e (clock_reads w) (length cs)) ems (map narrative cs)
              (map (\<lambda>c. case metadata c of None \<Rightarrow> [] | Some m \<Rightarrow> m) cs)) \<and>
         map sid (memories w') = map sid (memories w) @ ids_of e (clock_reads w) (length cs) \<and>
         clock_reads w' = clock_reads w + length cs \<and>
         distinct (ids_of e (clock_reads w) (length cs)) \<and>
         (\<forall>k m. set (ids_of e (clock_reads w) (length cs)) \<inter> set (ids_of e k m) = {} \<longleftrightarrow>
                (\<forall>idx. idx < length cs \<and> idx < m \<longrightarrow>
                       now e (clock_reads w + idx) \<noteq> now e (k + idx)))"
  using storeMemories_success [OF assms] distinct_ids_of ids_of_disjoint by blast

theorem storeMemories_identifiers_witness:
  "storeMemories env_ok (Some [chunk_tokyo, chunk_tokyo]) initial_world =
     (Inr (), snd (storeMemories env_ok (Some [chunk_tokyo, chunk_tokyo]) initial_world)) \<and>
   [chunk_tokyo, chunk_tokyo] \<noteq> [] \<and>
   ids_of env_ok (clock_reads initial_world) 2 = [''chunk_5_0'', ''chunk_6_1''] \<and>
   map sid (memories (snd (storeMemories env_ok (Some [chunk_tokyo, chunk_tokyo]) initial_world))) =
     [''chunk_5_0'', ''chunk_6_1''] \<and>
   distinct [''chunk_5_0'', ''chunk_6_1''] \<and>
   set [''chunk_5_0'', ''chunk_6_1''] \<inter> set (ids_of env_ok 2 2) = {}"
proof -
  let ?cs = "[chunk_tokyo, chunk_tokyo]"
  have h: "storeMemories env_ok (Some ?cs) initial_world =
     (Inr (), snd (storeMemories env_ok (Some ?cs) initial_world))"
    by (simp add: storeMemories_def store_eval Let_def)
  have ne: "?cs \<noteq> []" by simp
  have c: "clock_reads initial_world = 0" by (simp add: initial_world_def)
  have m: "memories initial_world = []" by (simp add: initial_world_def)
  have i: "ids_of env_ok (clock_reads initial_world) 2 = [''chunk_5_0'', ''chunk_6_1'']"
    unfolding c
    by (simp add: ids_of_def chunk_id_def env_ok_def show_nat.simps digit_char_eval upt_rec)
  have len: "length ?cs = 2" by simp
  note t = storeMemories_identifiers [OF h ne, unfolded len i m]
  from t have 1: "map sid (memories (snd (storeMemories env_ok (Some ?cs) initial_world))) =
     [''chunk_5_0'', ''chunk_6_1'']"
    by simp
  from t have 2: "distinct [''chunk_5_0'', ''chunk_6_1'']" by blast
  have "\<forall>idx. idx < (2::nat) \<and> idx < 2 \<longrightarrow>
      now env_ok (clock_reads initial_world + idx) \<noteq> now env_ok (2 + idx)"
    by (simp add: env_ok_def c)
  with t have 3: "set [''chunk_5_0'', ''chunk_6_1''] \<inter> set (ids_of env_ok 2 2) = {}"
    by blast
  from h ne i 1 2 3 show ?thesis by blast
qed

text \<open>
  Claim C7 as stated excludes any reuse across batches. Two calls within one millisecond
  both write the identifier \<^verbatim>\<open>chunk_5_0\<close>.
\<close>

theorem identifier_reused_counterexample:
  "(let w1 = snd (storeMemories env_stuck (Some [chunk_tokyo]) initial_world);
        w2 = snd (storeMemories env_stuck (Some [chunk_tokyo]) w1)
    in fst (storeMemories env_stuck (Some [chunk_tokyo]) initial_world) = Inr () \<and>
       fst (storeMemories env_stuck (Some [chunk_tokyo]) w1) = Inr () \<and>
       backend_log w2 =
         [GetOrCreateCollection,
          Add [''chunk_5_0''] [[1]] [''User lives in Tokyo.''] [[]],
          Add [''chunk_5_0''] [[1]] [''User lives in Tokyo.''] [[]]] \<and>
       map sid (memories w2) = [''chunk_5_0'', ''chunk_5_0''])"
  by (simp add: storeMemories_def store_eval Let_def env_stuck_def chunk_tokyo_def
      ids_of_def chunk_id_def show_nat.simps digit_char_eval backend_add_def)

section \<open>The chat loop\<close>

text \<open>
  Claim C6. When the request to the Generation Service fails, \<^verbatim>\<open>reformulateQuery\<close> returns
  its input as it is.
\<close>

theorem reformulateQuery_fallback:
  assumes "complete e (length (gen_log w)) (reformulate_request input recentContext) = Inl err"
  shows "fst (reformulateQuery e input recentContext w) = input"
  using assms by (simp add: reformulateQuery_def chat_create_def)

theorem reformulateQuery_fallback_witness:
  "complete (env_ok\<lparr>complete := \<lambda>k r. Inl down\<rparr>) (length (gen_log initial_world))
     (reformulate_request ''where do I live?'' []) = Inl down \<and>
   fst (reformulateQuery (env_ok\<lparr>complete := \<lambda>k r. Inl down\<rparr>) ''where do I live?'' []
     initial_world) = ''where do I live?''"
proof -
  have h: "complete (env_ok\<lparr>complete := \<lambda>k r. Inl down\<rparr>) (length (gen_log initial_world))
     (reformulate_request ''where do I live?'' []) = Inl down"
    by simp
  from reformulateQuery_fallback [OF h] h show ?thesis by simp
qed

text \<open>
  Claim C3. \<^verbatim>\<open>processSummaries\<close> either leaves the rolling summary and the conversation
  cache as they were, or has cleared both after \<^verbatim>\<open>storeMemories\<close> succeeded on a chunk
  set that is not empty. When \<^verbatim>\<open>processConversations\<close> fails, and when \<^verbatim>\<open>storeMemories\<close>
  fails, both are as they were, so the next call starts from the same input.
\<close>

theorem processSummaries_clears_after_store:
  "(session (processSummaries e w) = session w \<or>
    (\<exists>contexts w1 chunks w2 w3.
       contextsToProcess e w = (Inr contexts, w1) \<and>
       processConversations e (Some contexts) w1 = (Inr chunks, w2) \<and> chunks \<noteq> [] \<and>
       storeMemories e (Some chunks) w2 = (Inr (), w3) \<and>
       session (processSummaries e w) = ([], []))) \<and>
   (\<forall>contexts w1 err w2.
       contextsToProcess e w = (Inr contexts, w1) \<longrightarrow>
       processConversations e (Some contexts) w1 = (Inl err, w2) \<longrightarrow>
       session (processSummaries e w) = session w) \<and>
   (\<forall>contexts w1 chunks w2 err w3.
       contextsToProcess e w = (Inr contexts, w1) \<longrightarrow>
       processConversations e (Some contexts) w1 = (Inr chunks, w2) \<longrightarrow>
       storeMemories e (Some chunks) w2 = (Inl err, w3) \<longrightarrow>
       session (processSummaries e w) = session w)"
proof (intro conjI allI impI)
  show "session (processSummaries e w) = session w \<or>
    (\<exists>contexts w1 chunks w2 w3.
       contextsToProcess e w = (Inr contexts, w1) \<and>
       processConversations e (Some contexts) w1 = (Inr chunks, w2) \<and> chunks \<noteq> [] \<and>
       storeMemories e (Some chunks) w2 = (Inr (), w3) \<and>
       session (processSummaries e w) = ([], []))"
  proof -
    obtain r1 w1 where c: "contextsToProcess e w = (r1, w1)"
      by (cases "contextsToProcess e w")
    note f1 = contextsToProcess_frame [OF c]
    show ?thesis
    proof (cases "\<exists>contexts. r1 = Inr contexts \<and> contexts \<noteq> [] \<and>
                    \<not> (currentSummary w = [] \<and> conversationCache w = [])")
      case False
      with c f1 have "session (processSummaries e w) = session w"
        by (auto simp: processSummaries_def split: sum.splits)
      then show ?thesis ..
    next
      case True
      then obtain contexts where ctx: "r1 = Inr contexts" "contexts \<noteq> []"
        "\<not> (currentSummary w = [] \<and> conversationCache w = [])" by blast
      obtain r2 w2 where p: "processConversations e (Some contexts) w1 = (r2, w2)"
        by (cases "processConversations e (Some contexts) w1")
      note f2 = processConversations_frame [OF p]
      show ?thesis
      proof (cases "\<exists>chunks. r2 = Inr chunks \<and> chunks \<noteq> []")
        case False
        with c ctx p f1 f2 have "session (processSummaries e w) = session w"
          by (auto simp: processSummaries_def split: sum.splits)
        then show ?thesis ..
      next
        case True
        then obtain chunks where ch: "r2 = Inr chunks" "chunks \<noteq> []" by blast
        obtain r3 w3 where s: "storeMemories e (Some chunks) w2 = (r3, w3)"
          by (cases "storeMemories e (Some chunks) w2")
        note f3 = storeMemories_frame [OF s]
        show ?thesis
        proof (cases r3)
          case (Inl err)
          with c ctx p ch s f1 f2 f3 have "session (processSummaries e w) = session w"
            by (auto simp: processSummaries_def)
          then show ?thesis ..
        next
          case (Inr u)
          with c ctx p ch s have "session (processSummaries e w) = ([], [])"
            by (auto simp: processSummaries_def session_def)
          with c ctx p ch s Inr show ?thesis by auto
        qed
      qed
    qed
  qed
next
  fix contexts w1 err w2
  assume c: "contextsToProcess e w = (Inr contexts, w1)"
    and p: "processConversations e (Some contexts) w1 = (Inl err, w2)"
  from contextsToProcess_frame [OF c] processConversations_frame [OF p] c p
  show "session (processSummaries e w) = session w"
    by (auto simp: processSummaries_def)
next
  fix contexts w1 chunks w2 err w3
  assume c: "contextsToProcess e w = (Inr contexts, w1)"
    and p: "processConversations e (Some contexts) w1 = (Inr chunks, w2)"
    and s: "storeMemories e (Some chunks) w2 = (Inl err, w3)"
  from contextsToProcess_frame [OF c] processConversations_frame [OF p]
    storeMemories_frame [OF s] c p s
  show "session (processSummaries e w) = session w"
    by (auto simp: processSummaries_def)
qed

theorem processSummaries_clears_after_store_witness:
  "(let e = env_ok\<lparr>complete := \<lambda>k r. Inl down\<rparr>
    in contextsToProcess e world_tokyo = (Inr [''User lives in Tokyo.''], world_tokyo) \<and>
       fst (processConversations e (Some [''User lives in Tokyo.'']) world_tokyo) = Inl down \<and>
       session (processSummaries e world_tokyo) = session world_tokyo) \<and>
   (let e = env_ok\<lparr>embed := \<lambda>k t. Inl down\<rparr>
    in contextsToProcess e world_tokyo = (Inr [''User lives in Tokyo.''], world_tokyo) \<and>
       (\<exists>chunks w2.
          processConversations e (Some [''User lives in Tokyo.'']) world_tokyo = (Inr chunks, w2) \<and>
          fst (storeMemories e (Some chunks) w2) = Inl down) \<and>
       session (processSummaries e world_tokyo) = session world_tokyo) \<and>
   session (processSummaries env_ok world_tokyo) = ([], [])"
proof -
  let ?a = "env_ok\<lparr>complete := \<lambda>k r. Inl down\<rparr>"
  let ?b = "env_ok\<lparr>embed := \<lambda>k t. Inl down\<rparr>"
  let ?s = "''User lives in Tokyo.''"
  have a1: "contextsToProcess ?a world_tokyo = (Inr [?s], world_tokyo)"
    by (simp add: contextsToProcess_def world_tokyo_def initial_world_def)
  have a2: "processConversations ?a (Some [?s]) world_tokyo =
      (Inl down, snd (processConversations ?a (Some [?s]) world_tokyo))"
    by (simp add: processConversations_def chat_create_def env_ok_def)
  have a3: "session (processSummaries ?a world_tokyo) = session world_tokyo"
    using processSummaries_clears_after_store [of ?a world_tokyo] a1 a2 by blast
  have b1: "contextsToProcess ?b world_tokyo = (Inr [?s], world_tokyo)"
    by (simp add: contextsToProcess_def world_tokyo_def initial_world_def)
  obtain chunks w2 where b2: "processConversations ?b (Some [?s]) world_tokyo = (Inr chunks, w2)"
    and ne: "chunks \<noteq> []"
    by (simp add: processConversations_def chat_create_def env_ok_def chunkTexts_example)
  have b3: "storeMemories ?b (Some chunks) w2 = (Inl down, snd (storeMemories ?b (Some chunks) w2))"
    using ne
    by (cases chunks)
      (auto simp: storeMemories_def initializeChroma_def backend_request_def
        generateEmbedding_def env_ok_def Let_def split: prod.splits sum.splits option.splits)
  have b4: "session (processSummaries ?b world_tokyo) = session world_tokyo"
    using processSummaries_clears_after_store [of ?b world_tokyo] b1 b2 b3 by blast
  from a2 have a2': "fst (processConversations ?a (Some [?s]) world_tokyo) = Inl down"
    by (metis fst_conv)
  from b3 have b3': "fst (storeMemories ?b (Some chunks) w2) = Inl down"
    by (metis fst_conv)
  have c: "session (processSummaries env_ok world_tokyo) = ([], [])"
    by (simp add: processSummaries_def contextsToProcess_def processConversations_def
        chat_create_def storeMemories_def store_eval world_tokyo_def chunkTexts_example
        session_def Let_def)
  show ?thesis unfolding Let_def using a1 a2' a3 b1 b2 b3' b4 c by blast
qed

text \<open>
  Claim C1, as the code has it. In a sequence of chat turns in which no summarization
  request that a turn sends fails, a buffer of at most \<open>CACHE_LIMIT\<close> turns has at most
  \<open>CACHE_LIMIT\<close> turns afterwards; the rolling summary never gets shorter. In a single
  turn: when the chat request fails, buffer and summary are as they were; when it is
  answered below the limit, the user turn and the reply are appended; when it is answered
  at the limit and the summarization request of this turn succeeds, the new summary is
  merged into the rolling summary, which does not get shorter, and the buffer holds the
  one seeded turn.
\<close>

theorem handleChat_rotation:
  "(summarizations_succeed e inputs w \<and> length (conversationCache w) \<le> CACHE_LIMIT \<longrightarrow>
      length (conversationCache (chat_turns e inputs w)) \<le> CACHE_LIMIT) \<and>
   length (currentSummary w) \<le> length (currentSummary (chat_turns e inputs w)) \<and>
   (\<forall>err w3. chat_outcome e input w = (Inl err, w3) \<longrightarrow>
      session (handleChat e input w) = session w) \<and>
   (\<forall>reply w3.
      chat_outcome e input w = (Inr reply, w3) \<and>
      length (conversationCache w) + 2 < CACHE_LIMIT \<longrightarrow>
      conversationCache (handleChat e input w) =
        conversationCache w @
        [\<lparr>role = User, content = input\<rparr>, \<lparr>role = Assistant, content = reply\<rparr>] \<and>
      currentSummary (handleChat e input w) = currentSummary w) \<and>
   (\<forall>reply w3 newSummary w5.
      chat_outcome e input w = (Inr reply, w3) \<and>
      CACHE_LIMIT \<le> length (conversationCache w) + 2 \<and>
      summarizeConversation e
        (conversationCache w @
         [\<lparr>role = User, content = input\<rparr>, \<lparr>role = Assistant, content = reply\<rparr>])
        (pushed input reply w3) = (Inr newSummary, w5) \<longrightarrow>
      currentSummary (handleChat e input w) =
        (if currentSummary w \<noteq> [] then currentSummary w @ ''\<newline>\<newline>'' @ newSummary
         else newSummary) \<and>
      conversationCache (handleChat e input w) =
        [\<lparr>role = User,
          content = ''Previous conversation context: '' @
                    currentSummary (handleChat e input w)\<rparr>] \<and>
      length (currentSummary w) \<le> length (currentSummary (handleChat e input w)))"
  using chat_turns_bounded [of e inputs w] chat_turns_summary_grows [of w e inputs]
    handleChat_chat_fails [of e input w] handleChat_below_limit [of e input w]
    handleChat_rotates [of e input w]
  by blast

theorem handleChat_rotation_witness:
  "summarizations_succeed env_no_summary [''a'', ''b'', ''c''] initial_world \<and>
   length (conversationCache initial_world) \<le> CACHE_LIMIT \<and>
   length (conversationCache (chat_turns env_no_summary [''a'', ''b'', ''c''] initial_world))
     \<le> CACHE_LIMIT \<and>
   chat_outcome (env_ok\<lparr>complete := \<lambda>k r. if k = 1 then Inl down else Inr ''q''\<rparr>) ''a'' world_five =
     (Inl down,
      snd (chat_outcome (env_ok\<lparr>complete := \<lambda>k r. if k = 1 then Inl down else Inr ''q''\<rparr>) ''a''
             world_five)) \<and>
   session (handleChat (env_ok\<lparr>complete := \<lambda>k r. if k = 1 then Inl down else Inr ''q''\<rparr>) ''a''
     world_five) = session world_five \<and>
   chat_outcome env_ok ''a'' initial_world =
     (Inr ''a b c d e f g h i j'', snd (chat_outcome env_ok ''a'' initial_world)) \<and>
   length (conversationCache initial_world) + 2 < CACHE_LIMIT \<and>
   conversationCache (handleChat env_ok ''a'' initial_world) =
     [\<lparr>role = User, content = ''a''\<rparr>, \<lparr>role = Assistant, content = ''a b c d e f g h i j''\<rparr>] \<and>
   chat_outcome env_ok ''d'' world_five =
     (Inr ''a b c d e f g h i j'', snd (chat_outcome env_ok ''d'' world_five)) \<and>
   CACHE_LIMIT \<le> length (conversationCache world_five) + 2 \<and>
   fst (summarizeConversation env_ok
          (conversationCache world_five @
           [\<lparr>role = User, content = ''d''\<rparr>,
            \<lparr>role = Assistant, content = ''a b c d e f g h i j''\<rparr>])
          (pushed ''d'' ''a b c d e f g h i j'' (snd (chat_outcome env_ok ''d'' world_five)))) =
     Inr ''a b c d e f g h i j'' \<and>
   conversationCache (handleChat env_ok ''d'' world_five) =
     [\<lparr>role = User, content = ''Previous conversation context: a b c d e f g h i j''\<rparr>]"
proof -
  let ?f = "env_ok\<lparr>complete := \<lambda>k r. if k = 1 then Inl down else Inr ''q''\<rparr>"
  let ?r = "''a b c d e f g h i j''"
  have a1: "summarizations_succeed env_no_summary [''a'', ''b'', ''c''] initial_world"
    by (simp add: turn_eval env_no_summary_def)
  have a2: "length (conversationCache initial_world) \<le> CACHE_LIMIT"
    by (simp add: initial_world_def)
  from handleChat_rotation [of env_no_summary "[''a'', ''b'', ''c'']" initial_world] a1 a2
  have a3: "length (conversationCache (chat_turns env_no_summary [''a'', ''b'', ''c''] initial_world))
     \<le> CACHE_LIMIT" by blast
  have b1: "chat_outcome ?f ''a'' world_five = (Inl down, snd (chat_outcome ?f ''a'' world_five))"
    by (simp add: turn_eval world_five_def)
  from handleChat_rotation [of ?f "[]" world_five "''a''"] b1
  have b2: "session (handleChat ?f ''a'' world_five) = session world_five" by blast
  have c1: "chat_outcome env_ok ''a'' initial_world =
      (Inr ?r, snd (chat_outcome env_ok ''a'' initial_world))"
    by (simp add: turn_eval)
  have c2: "length (conversationCache initial_world) + 2 < CACHE_LIMIT"
    by (simp add: initial_world_def CACHE_LIMIT_def)
  have c0: "conversationCache initial_world = []" by (simp add: initial_world_def)
  from handleChat_rotation [of env_ok "[]" initial_world "''a''"] c1 c2
  have "conversationCache (handleChat env_ok ''a'' initial_world) =
      conversationCache initial_world @
      [\<lparr>role = User, content = ''a''\<rparr>, \<lparr>role = Assistant, content = ?r\<rparr>]" by blast
  then have c3: "conversationCache (handleChat env_ok ''a'' initial_world) =
      [\<lparr>role = User, content = ''a''\<rparr>, \<lparr>role = Assistant, content = ?r\<rparr>]"
    unfolding c0 by simp
  let ?w3 = "snd (chat_outcome env_ok ''d'' world_five)"
  let ?cache = "conversationCache world_five @
           [\<lparr>role = User, content = ''d''\<rparr>, \<lparr>role = Assistant, content = ?r\<rparr>]"
  have d1: "chat_outcome env_ok ''d'' world_five = (Inr ?r, ?w3)"
    by (simp add: turn_eval world_five_def)
  have d2: "CACHE_LIMIT \<le> length (conversationCache world_five) + 2"
    by (simp add: world_five_def initial_world_def CACHE_LIMIT_def)
  have d3: "summarizeConversation env_ok ?cache (pushed ''d'' ?r ?w3) =
      (Inr ?r, snd (summarizeConversation env_ok ?cache (pushed ''d'' ?r ?w3)))"
    by (simp add: summarizeConversation_def chat_create_def env_ok_def)
  have s0: "currentSummary world_five = []" by (simp add: world_five_def initial_world_def)
  from handleChat_rotation [of env_ok "[]" world_five "''d''"] d1 d2 d3
  have "currentSummary (handleChat env_ok ''d'' world_five) =
        (if currentSummary world_five \<noteq> [] then currentSummary world_five @ ''\<newline>\<newline>'' @ ?r
         else ?r) \<and>
      conversationCache (handleChat env_ok ''d'' world_five) =
        [\<lparr>role = User,
          content = ''Previous conversation context: '' @
                    currentSummary (handleChat env_ok ''d'' world_five)\<rparr>]"
    by blast
  then have d4: "conversationCache (handleChat env_ok ''d'' world_five) =
     [\<lparr>role = User, content = ''Previous conversation context: a b c d e f g h i j''\<rparr>]"
    unfolding s0 by simp
  from d3 have d3': "fst (summarizeConversation env_ok ?cache (pushed ''d'' ?r ?w3)) = Inr ?r"
    by (metis fst_conv)
  from a1 a2 a3 b1 b2 c1 c2 c3 d1 d2 d3' d4 show ?thesis by blast
qed

text \<open>
  Claim C1 as stated bounds the buffer in every sequence of turns. When the summarization
  request of the fourth turn fails, the call returns with eight turns in the buffer.
\<close>

theorem buffer_exceeds_limit_counterexample:
  "length (conversationCache
     (chat_turns env_no_summary [''a'', ''b'', ''c'', ''d''] initial_world)) = 8 \<and>
   \<not> length (conversationCache
     (chat_turns env_no_summary [''a'', ''b'', ''c'', ''d''] initial_world)) \<le> CACHE_LIMIT"
  by (simp add: chat_eval env_no_summary_def trim_def is_space_def)

end
